theory Spec2Isabelle
  imports Main "HOL-Library.Multiset"
begin

section \<open>The migration engine of \<open>database/migration.go\<close>\<close>

text \<open>
  A Go \<open>string\<close> is a sequence of bytes, and so is a HOL \<open>string\<close>: \<open>length\<close> counts
  bytes and \<open>CHR 0xC2\<close> is one byte of a UTF-8 sequence. The functions of the Go standard
  library that the engine calls are modelled first, under their Go names, by what they
  return.
\<close>

subsection \<open>Package \<open>strings\<close>\<close>

definition HasPrefix :: "string \<Rightarrow> string \<Rightarrow> bool" where
  "HasPrefix s p = (length p \<le> length s \<and> take (length p) s = p)"

definition HasSuffix :: "string \<Rightarrow> string \<Rightarrow> bool" where
  "HasSuffix s p = (length p \<le> length s \<and> drop (length s - length p) s = p)"

definition TrimSuffix :: "string \<Rightarrow> string \<Rightarrow> string" where
  "TrimSuffix s p = (if HasSuffix s p then take (length s - length p) s else s)"

text \<open>\<open>strings.Split(s, sep)\<close> for a separator of one byte: one more piece than there are
  separators, so the empty string gives one empty piece.\<close>

fun Split :: "string \<Rightarrow> char \<Rightarrow> string list" where
  "Split [] sep = [[]]"
| "Split (c # cs) sep =
     (if c = sep then [] # Split cs sep
      else (case Split cs sep of [] \<Rightarrow> [[c]] | l # ls \<Rightarrow> (c # l) # ls))"

text \<open>\<open>strings.SplitN(s, sep, 2)\<close> for a separator of one byte: the text before the first
  separator and all the text after it, or \<open>s\<close> alone when it holds no separator.\<close>

definition SplitN2 :: "string \<Rightarrow> char \<Rightarrow> string list" where
  "SplitN2 s sep =
     (if sep \<in> set s then [takeWhile (\<lambda>c. c \<noteq> sep) s, tl (dropWhile (\<lambda>c. c \<noteq> sep) s)]
      else [s])"

fun Join :: "string list \<Rightarrow> string \<Rightarrow> string" where
  "Join [] sep = []"
| "Join [a] sep = a"
| "Join (a # b # r) sep = a @ sep @ Join (b # r) sep"

text \<open>\<open>strings.ReplaceAll(s, old, new)\<close> for \<open>old\<close> and \<open>new\<close> of one byte each.\<close>

definition ReplaceAll :: "string \<Rightarrow> char \<Rightarrow> char \<Rightarrow> string" where
  "ReplaceAll s old new = map (\<lambda>c. if c = old then new else c) s"

text \<open>
  \<open>strings.TrimSpace\<close> removes the leading and the trailing white space runes, as
  \<open>unicode.IsSpace\<close> defines them. \<open>spaceEncodings\<close> lists the UTF-8 encoding of each:
  the six ASCII ones, U+0085, U+00A0, U+1680, U+2000 to U+200A, U+2028, U+2029, U+202F,
  U+205F and U+3000. No encoding is a prefix or a suffix of another one, and a byte
  sequence that is not valid UTF-8 decodes to \<open>RuneError\<close>, which is not white space: a
  string starts (ends) with a white space rune exactly when one of the encodings is a
  prefix (suffix) of it.
\<close>

definition spaceEncodings :: "string list" where
  "spaceEncodings =
     [[CHR 0x09], [CHR 0x0A], [CHR 0x0B], [CHR 0x0C], [CHR 0x0D], [CHR 0x20],
      [CHR 0xC2, CHR 0x85], [CHR 0xC2, CHR 0xA0],
      [CHR 0xE1, CHR 0x9A, CHR 0x80],
      [CHR 0xE2, CHR 0x80, CHR 0x80], [CHR 0xE2, CHR 0x80, CHR 0x81],
      [CHR 0xE2, CHR 0x80, CHR 0x82], [CHR 0xE2, CHR 0x80, CHR 0x83],
      [CHR 0xE2, CHR 0x80, CHR 0x84], [CHR 0xE2, CHR 0x80, CHR 0x85],
      [CHR 0xE2, CHR 0x80, CHR 0x86], [CHR 0xE2, CHR 0x80, CHR 0x87],
      [CHR 0xE2, CHR 0x80, CHR 0x88], [CHR 0xE2, CHR 0x80, CHR 0x89],
      [CHR 0xE2, CHR 0x80, CHR 0x8A],
      [CHR 0xE2, CHR 0x80, CHR 0xA8], [CHR 0xE2, CHR 0x80, CHR 0xA9],
      [CHR 0xE2, CHR 0x80, CHR 0xAF],
      [CHR 0xE2, CHR 0x81, CHR 0x9F],
      [CHR 0xE3, CHR 0x80, CHR 0x80]]"

text \<open>\<open>trimLeading encs s\<close> drops from the front of \<open>s\<close> every rune whose encoding is in
  \<open>encs\<close>, until the first rune that is not.\<close>

fun trimLeading :: "string list \<Rightarrow> string \<Rightarrow> string" where
  "trimLeading encs [] = []"
| "trimLeading encs (c # cs) =
     (case filter (HasPrefix (c # cs)) encs of
        [] \<Rightarrow> c # cs
      | e # _ \<Rightarrow> trimLeading encs (drop (length e - 1) cs))"

definition TrimLeftSpace :: "string \<Rightarrow> string" where
  "TrimLeftSpace s = trimLeading spaceEncodings s"

definition TrimRightSpace :: "string \<Rightarrow> string" where
  "TrimRightSpace s = rev (trimLeading (map rev spaceEncodings) (rev s))"

definition TrimSpace :: "string \<Rightarrow> string" where
  "TrimSpace s = TrimRightSpace (TrimLeftSpace s)"

subsection \<open>\<open>splitMigrationContent\<close>\<close>

text \<open>The loop variables of \<open>splitMigrationContent\<close>.\<close>

record split_state =
  upLines :: "string list"
  downLines :: "string list"
  inDownSection :: bool

definition split_init :: split_state where
  "split_init = \<lparr>upLines = [], downLines = [], inDownSection = False\<rparr>"

text \<open>One turn of the loop over the lines.\<close>

definition splitLine :: "split_state \<Rightarrow> string \<Rightarrow> split_state" where
  "splitLine st line =
     (let trimmed = TrimSpace line in
      if HasPrefix trimmed ''-- DOWN'' \<or> HasPrefix trimmed ''--DOWN''
      then st\<lparr>inDownSection := True\<rparr>
      else if HasPrefix trimmed ''-- UP'' \<or> HasPrefix trimmed ''--UP''
      then st\<lparr>inDownSection := False\<rparr>
      else if inDownSection st
      then st\<lparr>downLines := downLines st @ [line]\<rparr>
      else st\<lparr>upLines := upLines st @ [line]\<rparr>)"

definition splitLines :: "string list \<Rightarrow> split_state" where
  "splitLines ls = foldl splitLine split_init ls"

definition splitMigrationContent :: "string \<Rightarrow> string \<times> string" where
  "splitMigrationContent content =
     (let st = splitLines (Split content (CHR 0x0A))
      in (Join (upLines st) [CHR 0x0A], Join (downLines st) [CHR 0x0A]))"

text \<open>The two tests of the loop body, named: the line, trimmed, starts with a DOWN marker
  (an UP marker). A line that passes neither is kept as content.\<close>

definition isDownMarker :: "string \<Rightarrow> bool" where
  "isDownMarker line = (HasPrefix (TrimSpace line) ''-- DOWN'' \<or> HasPrefix (TrimSpace line) ''--DOWN'')"

definition isUpMarker :: "string \<Rightarrow> bool" where
  "isUpMarker line = (HasPrefix (TrimSpace line) ''-- UP'' \<or> HasPrefix (TrimSpace line) ''--UP'')"

definition isContent :: "string \<Rightarrow> bool" where
  "isContent line = (\<not> isDownMarker line \<and> \<not> isUpMarker line)"

text \<open>Comparing two strings without regard to the case of ASCII letters, to speak about a
  marker keyword written in another letter case.\<close>

definition lowerASCII :: "char \<Rightarrow> char" where
  "lowerASCII c =
     (case map_of (zip ''ABCDEFGHIJKLMNOPQRSTUVWXYZ'' ''abcdefghijklmnopqrstuvwxyz'') c of
        None \<Rightarrow> c
      | Some d \<Rightarrow> d)"

definition equalFoldASCII :: "string \<Rightarrow> string \<Rightarrow> bool" where
  "equalFoldASCII s t = (map lowerASCII s = map lowerASCII t)"

definition markerKeywords :: "string list" where
  "markerKeywords = [''-- DOWN'', ''--DOWN'', ''-- UP'', ''--UP'']"

text \<open>The ASCII white space that can stand in a line: tab, vertical tab, form feed,
  carriage return and space.\<close>

definition asciiPad :: "char set" where
  "asciiPad = {CHR 0x09, CHR 0x0B, CHR 0x0C, CHR 0x0D, CHR 0x20}"

subsection \<open>Package \<open>path/filepath\<close> (Unix: the separator is \<open>/\<close>, there is no volume name)\<close>

definition Base :: "string \<Rightarrow> string" where
  "Base path =
     (if path = [] then ''.''
      else let stripped = rev (dropWhile (\<lambda>c. c = CHR ''/'') (rev path));
               last_elem = rev (takeWhile (\<lambda>c. c \<noteq> CHR ''/'') (rev stripped))
           in if last_elem = [] then ''/'' else last_elem)"

text \<open>\<open>filepath.Clean\<close> works on the elements between the separators: empty elements and
  \<open>.\<close> go, \<open>..\<close> removes the element before it (or stays, in front of a path that is
  not rooted; or goes, in front of a rooted one). \<open>kept\<close> is the result so far, last
  element first.\<close>

fun cleanElems :: "bool \<Rightarrow> string list \<Rightarrow> string list \<Rightarrow> string list" where
  "cleanElems rooted kept [] = rev kept"
| "cleanElems rooted kept (e # es) =
     (if e = [] \<or> e = ''.'' then cleanElems rooted kept es
      else if e = ''..'' then
        (case kept of
           [] \<Rightarrow> if rooted then cleanElems rooted [] es else cleanElems rooted [e] es
         | k # ks \<Rightarrow> if k = ''..'' then cleanElems rooted (e # kept) es
                     else cleanElems rooted ks es)
      else cleanElems rooted (e # kept) es)"

definition Clean :: "string \<Rightarrow> string" where
  "Clean path =
     (let rooted = HasPrefix path ''/'';
          out = Join (cleanElems rooted [] (Split path (CHR ''/''))) ''/''
      in if rooted then CHR ''/'' # out else if out = [] then ''.'' else out)"

definition Dir :: "string \<Rightarrow> string" where
  "Dir path = Clean (rev (dropWhile (\<lambda>c. c \<noteq> CHR ''/'') (rev path)))"

subsection \<open>\<open>strconv.Atoi\<close> (\<open>int\<close> is 64 bits wide)\<close>

datatype num_error = ErrSyntax | ErrRange

text \<open>The loop of \<open>strconv.ParseUint(s, 10, 64)\<close>: a byte that is no digit is a syntax error;
  a value beyond \<open>2^64 - 1\<close> is a range error, returned with \<open>2^64 - 1\<close> at the digit
  where it shows, before the bytes after that digit are looked at.\<close>

fun parseDigits :: "nat \<Rightarrow> string \<Rightarrow> nat \<times> num_error option" where
  "parseDigits n [] = (n, None)"
| "parseDigits n (c # cs) =
     (if (of_char c :: nat) < 48 \<or> 57 < (of_char c :: nat) then (0, Some ErrSyntax)
      else if n \<ge> (2 ^ 64 - 1) div 10 + 1 then (2 ^ 64 - 1, Some ErrRange)
      else if n * 10 + (of_char c - 48) > 2 ^ 64 - 1 then (2 ^ 64 - 1, Some ErrRange)
      else parseDigits (n * 10 + (of_char c - 48)) cs)"

definition ParseUint :: "string \<Rightarrow> nat \<times> num_error option" where
  "ParseUint s = (if s = [] then (0, Some ErrSyntax) else parseDigits 0 s)"

text \<open>\<open>Atoi\<close> returns what \<open>ParseInt(s, 10, 0)\<close> returns (its fast path for short strings
  computes the same): the value, which is 0 after a syntax error and the nearest bound
  of \<open>int\<close> after a range error, and the error.\<close>

definition Atoi :: "string \<Rightarrow> int \<times> num_error option" where
  "Atoi s =
     (if s = [] then (0, Some ErrSyntax)
      else let neg = (hd s = CHR ''-'');
               digits = (if hd s = CHR ''+'' \<or> hd s = CHR ''-'' then tl s else s);
               (un, err) = ParseUint digits
           in if err = Some ErrSyntax then (0, Some ErrSyntax)
              else if \<not> neg \<and> un \<ge> 2 ^ 63 then (2 ^ 63 - 1, Some ErrRange)
              else if neg \<and> un > 2 ^ 63 then (- (2 ^ 63), Some ErrRange)
              else (if neg then - int un else int un, None))"

subsection \<open>The data model\<close>

record Migration =
  Version :: string
  Description :: string
  Module :: string
  UpSQL :: string
  DownSQL :: string
  FilePath :: string

text \<open>A row of \<open>public.migrations\<close>. Only \<open>version\<close>, the primary key, cannot be NULL
  (\<open>None\<close>); \<open>executed_at\<close> is always written by its default, the time at which the
  inserting transaction began.\<close>

record ledger_row =
  version :: string
  description :: "string option"
  module :: "string option"
  file_path :: "string option"
  executed_at :: nat

text \<open>The table \<open>public.migrations\<close>: its rows in the order of insertion, and whether it
  has the two columns that \<open>migrateMigrationsTable\<close> adds to a table of the old
  structure.\<close>

record migrations_table =
  has_module :: bool
  has_file_path :: bool
  rows :: "ledger_row list"

text \<open>An entry that \<open>filepath.WalkDir\<close> hands to its callback: a path that could not be
  read (the callback's \<open>err\<close> is not nil), a directory, or a file.\<close>

datatype walk_entry = Unreadable string | Directory string | RegularFile string

text \<open>The lines the engine writes with \<open>log.Println\<close> and \<open>log.Printf\<close>, by their
  arguments; \<open>LogDefaultFiles\<close> stands for the six lines of
  \<open>createDefaultMigrationFiles\<close>.\<close>

datatype log_entry =
    LogMigratingTable
  | LogTableUpdated
  | LogDirMissing string
  | LogDefaultFiles
  | LogSkipping string string
  | LogExecuted string string string
  | LogAllExecuted
  | LogNothingToRollback
  | LogRolledBack string string string

text \<open>
  Errors are values: \<open>Errorf msg err\<close> is \<open>fmt.Errorf("msg: %w", err)\<close> and \<open>New msg\<close> an
  error made from a message alone. At the bottom are the errors of the collaborators:
  \<open>DriverError\<close>, a call of \<open>database/sql\<close> that failed whatever the statement (the
  connection); \<open>SqlError q\<close>, the statement \<open>q\<close> refused by the database; \<open>ScanNull\<close>, a NULL
  column scanned into a Go \<open>string\<close>; \<open>PathError p\<close>, an error of package \<open>os\<close> at path \<open>p\<close>.
\<close>

datatype error =
    DriverError
  | SqlError string
  | ScanNull
  | PathError string
  | New string
  | Errorf string error

text \<open>
  What the engine acts on. \<open>schema\<close> is everything the migration scripts create and
  change, of a type \<open>'s\<close> that is left open; \<open>table\<close> is \<open>public.migrations\<close>, \<open>None\<close> while
  it does not exist. \<open>root_missing\<close> tells that \<open>os.Stat\<close> finds no \<open>database/migrations\<close>,
  and \<open>walk\<close> lists what \<open>filepath.WalkDir\<close> meets there, in its (lexical) order. The rest
  records what the engine did: \<open>calls\<close> counts the calls made to the database driver
  (but for the deferred \<open>tx.Rollback\<close>, whose result is dropped), \<open>issued\<close> lists the
  migration bodies sent with \<open>tx.Exec\<close> (also those of a transaction that was rolled
  back), \<open>logged\<close> the log lines.
\<close>

record 's state =
  schema :: 's
  table :: "migrations_table option"
  root_missing :: bool
  walk :: "walk_entry list"
  calls :: nat
  issued :: "string list"
  logged :: "log_entry list"

text \<open>
  What the engine does not control. \<open>run_sql q sch\<close> is the schema after the script \<open>q\<close> ran
  on \<open>sch\<close>, or \<open>None\<close> when the database refuses it; a script acts on the schema only,
  not on \<open>public.migrations\<close>, and does not end the transaction it runs in.
  \<open>conn_fails n\<close> tells that the driver call number \<open>n\<close> fails; \<open>now n\<close> is the time of the
  database clock at that call; \<open>rejects_row r\<close> tells that the database refuses to store
  \<open>r\<close> (a value longer than its \<open>VARCHAR\<close> column, bytes outside the encoding).
  \<open>read_file\<close> is \<open>os.ReadFile\<close> (\<open>None\<close>: an error) and \<open>mkdir_fails\<close> tells for which
  paths \<open>os.MkdirAll\<close> does. \<open>sort_Slice lt xs\<close> is what \<open>sort.Slice\<close> leaves in the slice
  \<open>xs\<close>: the algorithm is the library's, and is not stable.
\<close>

record 's world =
  run_sql :: "string \<Rightarrow> 's \<Rightarrow> 's option"
  conn_fails :: "nat \<Rightarrow> bool"
  now :: "nat \<Rightarrow> nat"
  rejects_row :: "ledger_row \<Rightarrow> bool"
  read_file :: "string \<Rightarrow> string option"
  mkdir_fails :: "string \<Rightarrow> bool"
  sort_Slice :: "(Migration \<Rightarrow> Migration \<Rightarrow> bool) \<Rightarrow> Migration list \<Rightarrow> Migration list"

definition migrationsDir :: string where
  "migrationsDir = ''database/migrations''"

text \<open>One call of the driver is made: the counter moves on.\<close>

definition tick :: "'s state \<Rightarrow> 's state" where
  "tick s = s\<lparr>calls := Suc (calls s)\<rparr>"

definition logf :: "log_entry \<Rightarrow> 's state \<Rightarrow> 's state" where
  "logf e s = s\<lparr>logged := logged s @ [e]\<rparr>"

subsection \<open>\<open>createMigrationsTable\<close> and \<open>migrateMigrationsTable\<close>\<close>

text \<open>The three statements of the upgrade, each on its own (no transaction is open):
  \<open>ALTER TABLE ... ADD COLUMN\<close> needs the table and refuses a column that is there;
  the new column is NULL in every row.\<close>

definition addModuleColumn :: "migrations_table option \<Rightarrow> migrations_table option" where
  "addModuleColumn tbl =
     (case tbl of
        None \<Rightarrow> None
      | Some t \<Rightarrow>
          if has_module t then None
          else Some (t\<lparr>has_module := True, rows := map (\<lambda>r. r\<lparr>module := None\<rparr>) (rows t)\<rparr>))"

definition addFilePathColumn :: "migrations_table option \<Rightarrow> migrations_table option" where
  "addFilePathColumn tbl =
     (case tbl of
        None \<Rightarrow> None
      | Some t \<Rightarrow>
          if has_file_path t then None
          else Some (t\<lparr>has_file_path := True,
                       rows := map (\<lambda>r. r\<lparr>file_path := None\<rparr>) (rows t)\<rparr>))"

definition setLegacyModule :: "migrations_table option \<Rightarrow> migrations_table option" where
  "setLegacyModule tbl =
     (case tbl of
        None \<Rightarrow> None
      | Some t \<Rightarrow>
          if \<not> has_module t then None
          else Some (t\<lparr>rows := map (\<lambda>r. if module r = None then r\<lparr>module := Some ''legacy''\<rparr>
                                           else r) (rows t)\<rparr>))"

text \<open>\<open>db.Exec\<close> of a statement on \<open>public.migrations\<close>, given by its effect on the table
  (\<open>None\<close>: refused).\<close>

definition execOnTable ::
  "'s world \<Rightarrow> string \<Rightarrow> (migrations_table option \<Rightarrow> migrations_table option) \<Rightarrow>
   's state \<Rightarrow> error option \<times> 's state" where
  "execOnTable w q effect s =
     (if conn_fails w (calls s) then (Some DriverError, tick s)
      else (case effect (table s) of
              None \<Rightarrow> (Some (SqlError q), tick s)
            | Some t \<Rightarrow> (None, (tick s)\<lparr>table := Some t\<rparr>)))"

definition migrateMigrationsTable :: "'s world \<Rightarrow> 's state \<Rightarrow> error option \<times> 's state" where
  "migrateMigrationsTable w s =
     (if conn_fails w (calls s)
      then (Some (Errorf ''failed to check column existence'' DriverError), tick s)
      else
        let exists = (case table s of None \<Rightarrow> False | Some t \<Rightarrow> has_module t);
            s1 = tick s
        in if \<not> exists then
             (case execOnTable w ''ALTER TABLE public.migrations ADD COLUMN module VARCHAR(100)''
                     addModuleColumn (logf LogMigratingTable s1) of
                (Some err, s2) \<Rightarrow> (Some (Errorf ''failed to add module column'' err), s2)
              | (None, s2) \<Rightarrow>
                 (case execOnTable w
                         ''ALTER TABLE public.migrations ADD COLUMN file_path VARCHAR(500)''
                         addFilePathColumn s2 of
                    (Some err, s3) \<Rightarrow> (Some (Errorf ''failed to add file_path column'' err), s3)
                  | (None, s3) \<Rightarrow>
                     (case execOnTable w
                             ''UPDATE public.migrations SET module = 'legacy' WHERE module IS NULL''
                             setLegacyModule s3 of
                        (Some err, s4) \<Rightarrow>
                          (Some (Errorf ''failed to update existing records'' err), s4)
                      | (None, s4) \<Rightarrow> (None, logf LogTableUpdated s4))))
           else (None, s1))"

text \<open>\<open>CREATE TABLE IF NOT EXISTS\<close> makes the table, empty and with all its columns, when
  there is none, and leaves one that exists as it is.\<close>

definition createTableIfNotExists :: "migrations_table option \<Rightarrow> migrations_table option" where
  "createTableIfNotExists tbl =
     (case tbl of
        None \<Rightarrow> Some \<lparr>has_module = True, has_file_path = True, rows = []\<rparr>
      | Some t \<Rightarrow> Some t)"

definition createMigrationsTable :: "'s world \<Rightarrow> 's state \<Rightarrow> error option \<times> 's state" where
  "createMigrationsTable w s =
     (case execOnTable w ''CREATE TABLE IF NOT EXISTS public.migrations'' createTableIfNotExists s of
        (Some err, s1) \<Rightarrow> (Some err, s1)
      | (None, s1) \<Rightarrow>
         (case migrateMigrationsTable w s1 of
            (Some err, s2) \<Rightarrow> (Some (Errorf ''failed to migrate migrations table'' err), s2)
          | (None, s2) \<Rightarrow> (None, s2)))"

subsection \<open>Reading the migration files\<close>

definition parseMigrationFile :: "'s world \<Rightarrow> string \<Rightarrow> error + Migration" where
  "parseMigrationFile w filePath =
     (case read_file w filePath of
        None \<Rightarrow> Inl (Errorf ''failed to read file'' (PathError filePath))
      | Some content \<Rightarrow>
          let filename = Base filePath;
              parts = SplitN2 filename (CHR ''_'')
          in if length parts < 2
             then Inl (New (''invalid migration filename format: '' @ filename))
             else
               let version = parts ! 0;
                   description = ReplaceAll (TrimSuffix (parts ! 1) ''.sql'') (CHR ''_'') (CHR '' '');
                   dir = Dir filePath;
                   module = Base dir;
                   (upSQL, downSQL) = splitMigrationContent content
               in Inr \<lparr>Version = version, Description = description, Module = module,
                        UpSQL = upSQL, DownSQL = downSQL, FilePath = filePath\<rparr>)"

text \<open>\<open>os.MkdirAll\<close> on the three module directories, in the order of the source. \<open>made\<close>
  holds the directories made so far, last one first, which is their lexical order.\<close>

fun mkdirAll :: "'s world \<Rightarrow> string list \<Rightarrow> string list \<Rightarrow> error option \<times> string list" where
  "mkdirAll w [] made = (None, made)"
| "mkdirAll w (dir # dirs) made =
     (if mkdir_fails w dir
      then (Some (Errorf (''failed to create directory '' @ dir) (PathError dir)), made)
      else mkdirAll w dirs (dir # made))"

text \<open>After \<open>createMigrationDirectories\<close> the tree holds the root and the directories that
  were made (a failing \<open>MkdirAll\<close> is taken to make nothing).\<close>

definition createMigrationDirectories :: "'s world \<Rightarrow> 's state \<Rightarrow> error option \<times> 's state" where
  "createMigrationDirectories w s =
     (case mkdirAll w [migrationsDir @ ''/user_management'', migrationsDir @ ''/sensor_data'',
                       migrationsDir @ ''/cross_module''] [] of
        (err, made) \<Rightarrow>
          (err, if made = [] then s
                else s\<lparr>root_missing := False,
                       walk := Directory migrationsDir # map Directory made\<rparr>))"

definition createDefaultMigrationFiles :: "'s state \<Rightarrow> error option \<times> 's state" where
  "createDefaultMigrationFiles s = (None, logf LogDefaultFiles s)"

text \<open>The callback of \<open>filepath.WalkDir\<close>, over the entries in turn.\<close>

fun walkDir :: "'s world \<Rightarrow> walk_entry list \<Rightarrow> Migration list \<Rightarrow> error + Migration list" where
  "walkDir w [] migrations = Inr migrations"
| "walkDir w (Unreadable path # es) migrations = Inl (PathError path)"
| "walkDir w (Directory path # es) migrations = walkDir w es migrations"
| "walkDir w (RegularFile path # es) migrations =
     (if \<not> HasSuffix path ''.sql'' then walkDir w es migrations
      else (case parseMigrationFile w path of
              Inl err \<Rightarrow> Inl (Errorf (''failed to parse migration file '' @ path) err)
            | Inr migration \<Rightarrow> walkDir w es (migrations @ [migration])))"

definition ensureDirectories :: "'s world \<Rightarrow> 's state \<Rightarrow> error option \<times> 's state" where
  "ensureDirectories w s =
     (if root_missing s then
        (case createMigrationDirectories w (logf (LogDirMissing migrationsDir) s) of
           (Some err, s1) \<Rightarrow> (Some (Errorf ''failed to create migration directories'' err), s1)
         | (None, s1) \<Rightarrow>
            (case createDefaultMigrationFiles s1 of
               (Some err, s2) \<Rightarrow>
                 (Some (Errorf ''failed to create default migration files'' err), s2)
             | (None, s2) \<Rightarrow> (None, s2)))
      else (None, s))"

definition loadMigrationsFromFiles ::
  "'s world \<Rightarrow> 's state \<Rightarrow> (error + Migration list) \<times> 's state" where
  "loadMigrationsFromFiles w s =
     (case ensureDirectories w s of
        (Some err, s1) \<Rightarrow> (Inl err, s1)
      | (None, s1) \<Rightarrow>
         (case walkDir w (walk s1) [] of
            Inl err \<Rightarrow> (Inl (Errorf ''failed to walk migration directory'' err), s1)
          | Inr migrations \<Rightarrow> (Inr migrations, s1)))"

subsection \<open>\<open>executeMigration\<close>\<close>

text \<open>\<open>SELECT COUNT(*) FROM public.migrations WHERE version = $1\<close>; \<open>None\<close> without the table.\<close>

definition countVersion :: "migrations_table option \<Rightarrow> string \<Rightarrow> nat option" where
  "countVersion tbl v =
     (case tbl of
        None \<Rightarrow> None
      | Some t \<Rightarrow> Some (length (filter (\<lambda>r. version r = v) (rows t))))"

text \<open>\<open>INSERT INTO public.migrations (version, description, module, file_path)\<close>: refused
  without the table or one of the columns, for a version that is there (the primary key)
  and for values the database does not store.\<close>

definition insertRow ::
  "'s world \<Rightarrow> migrations_table option \<Rightarrow> ledger_row \<Rightarrow> migrations_table option" where
  "insertRow w tbl r =
     (case tbl of
        None \<Rightarrow> None
      | Some t \<Rightarrow>
          if \<not> has_module t \<or> \<not> has_file_path t \<or> version r \<in> set (map version (rows t))
             \<or> rejects_row w r
          then None
          else Some (t\<lparr>rows := rows t @ [r]\<rparr>))"

text \<open>\<open>tx.Exec\<close> of a migration body in the open transaction, whose view of the schema is
  \<open>view\<close>: the body is sent, and the call gives the new view or an error.\<close>

definition txExec :: "'s world \<Rightarrow> string \<Rightarrow> 's \<Rightarrow> 's state \<Rightarrow> (error + 's) \<times> 's state" where
  "txExec w q view s =
     (let s1 = (tick s)\<lparr>issued := issued s @ [q]\<rparr>
      in if conn_fails w (calls s) then (Inl DriverError, s1)
         else (case run_sql w q view of
                 None \<Rightarrow> (Inl (SqlError q), s1)
               | Some view' \<Rightarrow> (Inr view', s1)))"

text \<open>The body of a transaction returns with an error, and the deferred \<open>tx.Rollback\<close>
  drops what the transaction did, or it commits: then \<open>view\<close> and \<open>tbl\<close> become the
  schema and the table. A \<open>Commit\<close> that fails commits nothing.\<close>

definition txCommit ::
  "'s world \<Rightarrow> string \<Rightarrow> 's \<Rightarrow> migrations_table option \<Rightarrow> 's state \<Rightarrow> error option \<times> 's state" where
  "txCommit w msg view tbl s =
     (if conn_fails w (calls s) then (Some (Errorf msg DriverError), tick s)
      else (None, (tick s)\<lparr>schema := view, table := tbl\<rparr>))"

definition executeMigration :: "'s world \<Rightarrow> Migration \<Rightarrow> 's state \<Rightarrow> error option \<times> 's state" where
  "executeMigration w migration s =
     (if conn_fails w (calls s)
      then (Some (Errorf ''failed to check migration status'' DriverError), tick s)
      else
        (case countVersion (table s) (Version migration) of
           None \<Rightarrow>
             (Some (Errorf ''failed to check migration status''
                      (SqlError ''SELECT COUNT(*) FROM public.migrations WHERE version = $1'')),
              tick s)
         | Some cnt \<Rightarrow>
             if cnt > 0
             then (None, logf (LogSkipping (Version migration) (Module migration)) (tick s))
             else
               let s1 = tick s in
               if conn_fails w (calls s1)
               then (Some (Errorf ''failed to start transaction'' DriverError), tick s1)
               else
                 let began = now w (calls s1);
                     s2 = tick s1;
                     (ran, s3) = (if TrimSpace (UpSQL migration) \<noteq> []
                                  then txExec w (UpSQL migration) (schema s2) s2
                                  else (Inr (schema s2), s2))
                 in (case ran of
                       Inl err \<Rightarrow> (Some (Errorf ''failed to execute migration SQL'' err), s3)
                     | Inr view \<Rightarrow>
                         if conn_fails w (calls s3)
                         then (Some (Errorf ''failed to record migration'' DriverError), tick s3)
                         else
                           (case insertRow w (table s3)
                                   \<lparr>version = Version migration,
                                    description = Some (Description migration),
                                    module = Some (Module migration),
                                    file_path = Some (FilePath migration),
                                    executed_at = began\<rparr> of
                              None \<Rightarrow>
                                (Some (Errorf ''failed to record migration''
                                         (SqlError ''INSERT INTO public.migrations'')),
                                 tick s3)
                            | Some tbl \<Rightarrow>
                                (case txCommit w ''failed to commit migration'' view (Some tbl)
                                        (tick s3) of
                                   (Some err, s4) \<Rightarrow> (Some err, s4)
                                 | (None, s4) \<Rightarrow>
                                     (None, logf (LogExecuted (Version migration)
                                                    (Description migration) (Module migration))
                                              s4))))))"

subsection \<open>\<open>RunMigrations\<close>\<close>

text \<open>The comparator handed to \<open>sort.Slice\<close>: the errors of \<open>Atoi\<close> are dropped.\<close>

definition versionLess :: "Migration \<Rightarrow> Migration \<Rightarrow> bool" where
  "versionLess a b = (fst (Atoi (Version a)) < fst (Atoi (Version b)))"

text \<open>The loop over the sorted migrations.\<close>

fun executeAll :: "'s world \<Rightarrow> Migration list \<Rightarrow> 's state \<Rightarrow> error option \<times> 's state" where
  "executeAll w [] s = (None, s)"
| "executeAll w (migration # rest) s =
     (case executeMigration w migration s of
        (Some err, s1) \<Rightarrow>
          (Some (Errorf (''failed to execute migration '' @ Version migration) err), s1)
      | (None, s1) \<Rightarrow> executeAll w rest s1)"

definition RunMigrations :: "'s world \<Rightarrow> 's state \<Rightarrow> error option \<times> 's state" where
  "RunMigrations w s =
     (case createMigrationsTable w s of
        (Some err, s1) \<Rightarrow> (Some (Errorf ''failed to create migrations table'' err), s1)
      | (None, s1) \<Rightarrow>
         (case loadMigrationsFromFiles w s1 of
            (Inl err, s2) \<Rightarrow> (Some (Errorf ''failed to load migrations'' err), s2)
          | (Inr migrations, s2) \<Rightarrow>
             (case executeAll w (sort_Slice w versionLess migrations) s2 of
                (Some err, s3) \<Rightarrow> (Some err, s3)
              | (None, s3) \<Rightarrow> (None, logf LogAllExecuted s3))))"

subsection \<open>\<open>Rollback\<close>\<close>

text \<open>\<open>ORDER BY executed_at DESC LIMIT 1\<close>: a row with the greatest \<open>executed_at\<close>. Which
  one of several such rows the database returns is not fixed by SQL; here it is the one
  inserted first.\<close>

fun latestRow :: "ledger_row list \<Rightarrow> ledger_row option" where
  "latestRow [] = None"
| "latestRow (r # rs) =
     (case latestRow rs of
        None \<Rightarrow> Some r
      | Some r' \<Rightarrow> if executed_at r < executed_at r' then Some r' else Some r)"

text \<open>\<open>DELETE FROM public.migrations WHERE version = $1\<close>.\<close>

definition deleteVersion :: "migrations_table \<Rightarrow> string \<Rightarrow> migrations_table" where
  "deleteVersion t v = t\<lparr>rows := filter (\<lambda>r. version r \<noteq> v) (rows t)\<rparr>"

definition Rollback :: "'s world \<Rightarrow> 's state \<Rightarrow> error option \<times> 's state" where
  "Rollback w s =
     (if conn_fails w (calls s)
      then (Some (Errorf ''failed to get last migration'' DriverError), tick s)
      else
        (case table s of
           None \<Rightarrow>
             (Some (Errorf ''failed to get last migration''
                      (SqlError ''SELECT version, description, module, file_path'')), tick s)
         | Some t \<Rightarrow>
             if \<not> has_module t \<or> \<not> has_file_path t
             then (Some (Errorf ''failed to get last migration''
                           (SqlError ''SELECT version, description, module, file_path'')), tick s)
             else
               (case latestRow (rows t) of
                  None \<Rightarrow> (None, logf LogNothingToRollback (tick s))
                | Some r \<Rightarrow>
                   (case (description r, module r, file_path r) of
                      (Some descr, Some modl, Some filePath) \<Rightarrow>
                        (case parseMigrationFile w filePath of
                           Inl err \<Rightarrow>
                             (Some (Errorf ''failed to parse migration file for rollback'' err),
                              tick s)
                         | Inr migration \<Rightarrow>
                             let s1 = tick s in
                             if conn_fails w (calls s1)
                             then (Some (Errorf ''failed to start transaction'' DriverError),
                                   tick s1)
                             else
                               let s2 = tick s1;
                                   (ran, s3) = (if TrimSpace (DownSQL migration) \<noteq> []
                                                then txExec w (DownSQL migration) (schema s2) s2
                                                else (Inr (schema s2), s2))
                               in (case ran of
                                     Inl err \<Rightarrow>
                                       (Some (Errorf ''failed to execute rollback SQL'' err), s3)
                                   | Inr view \<Rightarrow>
                                       if conn_fails w (calls s3)
                                       then (Some (Errorf ''failed to remove migration record''
                                                     DriverError), tick s3)
                                       else
                                         (case txCommit w ''failed to commit rollback'' view
                                                 (Some (deleteVersion t (version r))) (tick s3) of
                                            (Some err, s4) \<Rightarrow> (Some err, s4)
                                          | (None, s4) \<Rightarrow>
                                              (None, logf (LogRolledBack (version r) descr modl) s4))))
                    | _ \<Rightarrow> (Some (Errorf ''failed to get last migration'' ScanNull), tick s)))))"

subsection \<open>\<open>sort.Slice\<close> on a short slice\<close>

text \<open>For a slice of at most 12 elements \<open>sort.Slice\<close> runs an insertion sort: each element
  in turn moves towards the front while it is less than the element before it.\<close>

fun insertBackwards :: "('a \<Rightarrow> 'a \<Rightarrow> bool) \<Rightarrow> 'a \<Rightarrow> 'a list \<Rightarrow> 'a list" where
  "insertBackwards lt x [] = [x]"
| "insertBackwards lt x (y # ys) =
     (if lt x y then y # insertBackwards lt x ys else x # y # ys)"

text \<open>\<open>front\<close> is the sorted front of the slice, last element first.\<close>

definition insertionSort :: "('a \<Rightarrow> 'a \<Rightarrow> bool) \<Rightarrow> 'a list \<Rightarrow> 'a list" where
  "insertionSort lt xs = rev (foldl (\<lambda>front x. insertBackwards lt x front) [] xs)"

subsection \<open>Words for the properties\<close>

text \<open>The versions in the ledger, in the order of the rows; none without the table.\<close>

definition applied :: "'s state \<Rightarrow> string list" where
  "applied s = (case table s of None \<Rightarrow> [] | Some t \<Rightarrow> map version (rows t))"

text \<open>The row that \<open>executeMigration\<close> inserts for a migration, in a transaction begun at
  time \<open>t\<close>.\<close>

definition newRow :: "Migration \<Rightarrow> nat \<Rightarrow> ledger_row" where
  "newRow m t = \<lparr>version = Version m, description = Some (Description m),
                 module = Some (Module m), file_path = Some (FilePath m), executed_at = t\<rparr>"

text \<open>The applied versions are a prefix of the corpus \<open>vs\<close> (the versions of the sorted
  migrations): those of them that are in the corpus are the versions of its first \<open>k\<close>
  migrations, for some \<open>k\<close>.\<close>

definition prefixApplied :: "string list \<Rightarrow> string list \<Rightarrow> bool" where
  "prefixApplied vs done_vs =
     list_ex (\<lambda>k. set (filter (\<lambda>v. v \<in> set vs) done_vs) = set (take k vs))
       [0..<Suc (length vs)]"

text \<open>The versions that the loop of \<open>RunMigrations\<close> went through, skipped or executed,
  as the log tells them.\<close>

fun processed :: "log_entry list \<Rightarrow> string list" where
  "processed [] = []"
| "processed (LogSkipping v m # es) = v # processed es"
| "processed (LogExecuted v d m # es) = v # processed es"
| "processed (e # es) = processed es"

text \<open>What \<open>sort.Slice\<close> promises for a comparator \<open>lt\<close>: the same elements, and none
  less than one before it.\<close>

definition sortsBy ::
  "(('a \<Rightarrow> 'a \<Rightarrow> bool) \<Rightarrow> 'a list \<Rightarrow> 'a list) \<Rightarrow> ('a \<Rightarrow> 'a \<Rightarrow> bool) \<Rightarrow> bool" where
  "sortsBy srt lt =
     (\<forall>xs. mset (srt lt xs) = mset xs \<and> sorted_wrt (\<lambda>a b. \<not> lt b a) (srt lt xs))"

subsection \<open>A small installation\<close>

text \<open>
  A world to run the engine in: no call fails, a script is refused exactly when it starts
  with \<open>FAIL\<close>, the schema is the list of the scripts that ran, the clock shows
  \<open>100 + n\<close> at call \<open>n\<close>, and \<open>sort.Slice\<close> is the insertion sort of short slices. Its
  files, and what \<open>parseMigrationFile\<close> makes of each, follow.
\<close>

definition demo :: "string list world" where
  "demo = \<lparr>run_sql = (\<lambda>q sch. if HasPrefix q ''FAIL'' then None else Some (sch @ [q])),
           conn_fails = (\<lambda>n. False),
           now = (\<lambda>n. 100 + n),
           rejects_row = (\<lambda>r. False),
           read_file = map_of
             [(''database/migrations/cross_module/003_seed.sql'',
                 ''-- UP\<newline>INSERT 3;\<newline>-- DOWN\<newline>DELETE 3;''),
              (''database/migrations/sensor_data/001_schema.sql'',
                 ''-- UP\<newline>CREATE 1;\<newline>-- DOWN\<newline>DROP 1;''),
              (''database/migrations/user_management/002_users.sql'',
                 ''-- UP\<newline>CREATE 2;\<newline>-- DOWN\<newline>FAIL 2;''),
              (''database/migrations/cross_module/001_bad.sql'', ''FAIL 1;''),
              (''database/migrations/user_management/002_bad.sql'', ''FAIL 2;''),
              (''database/migrations/cross_module/001_seed.sql'', ''INSERT 1;''),
              (''database/migrations/cross_module/1_seed.sql'', ''INSERT 1;''),
              (''database/migrations/cross_module/abc_notes.sql'', ''SELECT 1;'')],
           mkdir_fails = (\<lambda>p. False),
           sort_Slice = insertionSort\<rparr>"

definition m001 :: Migration where
  "m001 = \<lparr>Version = ''001'', Description = ''schema'', Module = ''sensor_data'',
           UpSQL = ''CREATE 1;'', DownSQL = ''DROP 1;'',
           FilePath = ''database/migrations/sensor_data/001_schema.sql''\<rparr>"

definition m002 :: Migration where
  "m002 = \<lparr>Version = ''002'', Description = ''users'', Module = ''user_management'',
           UpSQL = ''CREATE 2;'', DownSQL = ''FAIL 2;'',
           FilePath = ''database/migrations/user_management/002_users.sql''\<rparr>"

definition m003 :: Migration where
  "m003 = \<lparr>Version = ''003'', Description = ''seed'', Module = ''cross_module'',
           UpSQL = ''INSERT 3;'', DownSQL = ''DELETE 3;'',
           FilePath = ''database/migrations/cross_module/003_seed.sql''\<rparr>"

definition m001_bad :: Migration where
  "m001_bad = \<lparr>Version = ''001'', Description = ''bad'', Module = ''cross_module'',
           UpSQL = ''FAIL 1;'', DownSQL = [],
           FilePath = ''database/migrations/cross_module/001_bad.sql''\<rparr>"

definition m002_bad :: Migration where
  "m002_bad = \<lparr>Version = ''002'', Description = ''bad'', Module = ''user_management'',
           UpSQL = ''FAIL 2;'', DownSQL = [],
           FilePath = ''database/migrations/user_management/002_bad.sql''\<rparr>"

definition m001_seed :: Migration where
  "m001_seed = \<lparr>Version = ''001'', Description = ''seed'', Module = ''cross_module'',
           UpSQL = ''INSERT 1;'', DownSQL = [],
           FilePath = ''database/migrations/cross_module/001_seed.sql''\<rparr>"

definition m1_seed :: Migration where
  "m1_seed = \<lparr>Version = ''1'', Description = ''seed'', Module = ''cross_module'',
           UpSQL = ''INSERT 1;'', DownSQL = [],
           FilePath = ''database/migrations/cross_module/1_seed.sql''\<rparr>"

definition m_abc :: Migration where
  "m_abc = \<lparr>Version = ''abc'', Description = ''notes'', Module = ''cross_module'',
           UpSQL = ''SELECT 1;'', DownSQL = [],
           FilePath = ''database/migrations/cross_module/abc_notes.sql''\<rparr>"

text \<open>A database that was never migrated, beside a tree with the given entries; and the
  table in its present structure, with the given rows.\<close>

definition fresh :: "walk_entry list \<Rightarrow> string list state" where
  "fresh entries = \<lparr>schema = [], table = None, root_missing = False, walk = entries,
                    calls = 0, issued = [], logged = []\<rparr>"

definition current_table :: "ledger_row list \<Rightarrow> migrations_table" where
  "current_table rs = \<lparr>has_module = True, has_file_path = True, rows = rs\<rparr>"

text \<open>Versions 003, 001, 002 in three modules, in the order in which the walk meets them,
  and the state after \<open>RunMigrations\<close>.\<close>

definition order_walk :: "walk_entry list" where
  "order_walk =
     [Directory ''database/migrations'',
      Directory ''database/migrations/cross_module'',
      RegularFile ''database/migrations/cross_module/003_seed.sql'',
      Directory ''database/migrations/sensor_data'',
      RegularFile ''database/migrations/sensor_data/001_schema.sql'',
      RegularFile ''database/migrations/sensor_data/README.md'',
      Directory ''database/migrations/user_management'',
      RegularFile ''database/migrations/user_management/002_users.sql'']"

definition order_final :: "string list state" where
  "order_final =
     \<lparr>schema = [''CREATE 1;'', ''CREATE 2;'', ''INSERT 3;''],
      table = Some (current_table [newRow m001 103, newRow m002 108, newRow m003 113]),
      root_missing = False, walk = order_walk, calls = 17,
      issued = [''CREATE 1;'', ''CREATE 2;'', ''INSERT 3;''],
      logged = [LogExecuted ''001'' ''schema'' ''sensor_data'',
                LogExecuted ''002'' ''users'' ''user_management'',
                LogExecuted ''003'' ''seed'' ''cross_module'', LogAllExecuted]\<rparr>"

text \<open>The script of version 002 fails: the state after the loop over 001, 002, 003.\<close>

definition fail_final :: "string list state" where
  "fail_final =
     \<lparr>schema = [''CREATE 1;''],
      table = Some (current_table [newRow m001 103]),
      root_missing = False, walk = [], calls = 10,
      issued = [''CREATE 1;'', ''FAIL 2;''],
      logged = [LogExecuted ''001'' ''schema'' ''sensor_data'']\<rparr>"

text \<open>Version 002 is in the ledger; version 001 came to the corpus later, and its script
  fails.\<close>

definition late_walk :: "walk_entry list" where
  "late_walk =
     [Directory ''database/migrations'',
      Directory ''database/migrations/cross_module'',
      RegularFile ''database/migrations/cross_module/001_bad.sql'',
      Directory ''database/migrations/user_management'',
      RegularFile ''database/migrations/user_management/002_users.sql'']"

definition late_start :: "string list state" where
  "late_start =
     \<lparr>schema = [''CREATE 2;''],
      table = Some (current_table [newRow m002 50]),
      root_missing = False, walk = late_walk, calls = 0,
      issued = [], logged = []\<rparr>"

text \<open>A file whose version is no number.\<close>

definition abc_walk :: "walk_entry list" where
  "abc_walk =
     [Directory ''database/migrations'',
      Directory ''database/migrations/cross_module'',
      RegularFile ''database/migrations/cross_module/abc_notes.sql'']"

definition abc_final :: "string list state" where
  "abc_final =
     \<lparr>schema = [''SELECT 1;''],
      table = Some (current_table [newRow m_abc 103]),
      root_missing = False, walk = abc_walk, calls = 7,
      issued = [''SELECT 1;''],
      logged = [LogExecuted ''abc'' ''notes'' ''cross_module'', LogAllExecuted]\<rparr>"

text \<open>Two files with version 001, in two modules.\<close>

definition twice_walk :: "walk_entry list" where
  "twice_walk =
     [Directory ''database/migrations'',
      Directory ''database/migrations/cross_module'',
      RegularFile ''database/migrations/cross_module/001_seed.sql'',
      Directory ''database/migrations/sensor_data'',
      RegularFile ''database/migrations/sensor_data/001_schema.sql'']"

definition twice_final :: "string list state" where
  "twice_final =
     \<lparr>schema = [''INSERT 1;''],
      table = Some (current_table [newRow m001_seed 103]),
      root_missing = False, walk = twice_walk, calls = 8,
      issued = [''INSERT 1;''],
      logged = [LogExecuted ''001'' ''seed'' ''cross_module'',
                LogSkipping ''001'' ''sensor_data'', LogAllExecuted]\<rparr>"

text \<open>Two files with the version number 1, written \<open>1\<close> and \<open>001\<close>.\<close>

definition pair_walk :: "walk_entry list" where
  "pair_walk =
     [Directory ''database/migrations'',
      Directory ''database/migrations/cross_module'',
      RegularFile ''database/migrations/cross_module/1_seed.sql'',
      Directory ''database/migrations/sensor_data'',
      RegularFile ''database/migrations/sensor_data/001_schema.sql'']"

definition pair_final :: "string list state" where
  "pair_final =
     \<lparr>schema = [''INSERT 1;'', ''CREATE 1;''],
      table = Some (current_table [newRow m1_seed 103, newRow m001 108]),
      root_missing = False, walk = pair_walk, calls = 12,
      issued = [''INSERT 1;'', ''CREATE 1;''],
      logged = [LogExecuted ''1'' ''seed'' ''cross_module'',
                LogExecuted ''001'' ''schema'' ''sensor_data'', LogAllExecuted]\<rparr>"

text \<open>Ledgers to roll back: the reverse script of the latest row fails; and version 001
  was applied after version 002.\<close>

definition down_fails_start :: "string list state" where
  "down_fails_start =
     \<lparr>schema = [''CREATE 1;'', ''CREATE 2;''],
      table = Some (current_table [newRow m001 103, newRow m002 108]),
      root_missing = False, walk = [], calls = 0, issued = [], logged = []\<rparr>"

definition out_of_order_start :: "string list state" where
  "out_of_order_start =
     \<lparr>schema = [''CREATE 2;'', ''CREATE 1;''],
      table = Some (current_table [newRow m002 105, newRow m001 109]),
      root_missing = False, walk = [], calls = 0, issued = [], logged = []\<rparr>"


section \<open>Properties of \<open>splitMigrationContent\<close>\<close>

lemma splitLine_down: "isDownMarker l \<Longrightarrow> splitLine st l = st\<lparr>inDownSection := True\<rparr>"
  by (simp add: splitLine_def isDownMarker_def Let_def)

lemma HasPrefix_nth: "HasPrefix s p \<Longrightarrow> i < length p \<Longrightarrow> s ! i = p ! i"
  by (metis HasPrefix_def nth_take)

lemma markers_exclusive: "isDownMarker l \<Longrightarrow> \<not> isUpMarker l"
proof
  assume d: "isDownMarker l" and u: "isUpMarker l"
  let ?t = "TrimSpace l"
  from d have d2: "?t ! 2 = CHR '' '' \<and> ?t ! 3 = CHR ''D'' \<or> ?t ! 2 = CHR ''D''"
    unfolding isDownMarker_def
    using HasPrefix_nth [of ?t "''-- DOWN''" 2] HasPrefix_nth [of ?t "''-- DOWN''" 3]
      HasPrefix_nth [of ?t "''--DOWN''" 2] by auto
  from u have u2: "?t ! 2 = CHR '' '' \<and> ?t ! 3 = CHR ''U'' \<or> ?t ! 2 = CHR ''U''"
    unfolding isUpMarker_def
    using HasPrefix_nth [of ?t "''-- UP''" 2] HasPrefix_nth [of ?t "''-- UP''" 3]
      HasPrefix_nth [of ?t "''--UP''" 2] by auto
  from d2 u2 show False by auto
qed

lemma splitLine_up: "isUpMarker l \<Longrightarrow> splitLine st l = st\<lparr>inDownSection := False\<rparr>"
  using markers_exclusive [of l] by (auto simp add: splitLine_def isDownMarker_def isUpMarker_def Let_def)

lemma splitLine_content:
  "isContent l \<Longrightarrow> splitLine st l =
     (if inDownSection st then st\<lparr>downLines := downLines st @ [l]\<rparr>
      else st\<lparr>upLines := upLines st @ [l]\<rparr>)"
  by (simp add: splitLine_def isContent_def isDownMarker_def isUpMarker_def Let_def)

lemma foldl_content:
  "\<forall>l \<in> set ls. isContent l \<Longrightarrow> foldl splitLine st ls =
     (if inDownSection st then st\<lparr>downLines := downLines st @ ls\<rparr>
      else st\<lparr>upLines := upLines st @ ls\<rparr>)"
  by (induction ls arbitrary: st) (simp_all add: splitLine_content)

lemma Split_Cons_line:
  "sep \<notin> set l \<Longrightarrow> Split (l @ sep # s) sep = l # Split s sep"
  by (induction l) (auto split: list.splits)

lemma Split_line: "sep \<notin> set l \<Longrightarrow> Split l sep = [l]"
  by (induction l) (auto split: list.splits)

lemma Split_Join:
  "ls \<noteq> [] \<Longrightarrow> \<forall>l \<in> set ls. sep \<notin> set l \<Longrightarrow> Split (Join ls [sep]) sep = ls"
  by (induction ls "[sep]" rule: Join.induct) (simp_all add: Split_line Split_Cons_line)

lemma splitLines_snoc: "splitLines (ls @ [l]) = splitLine (splitLines ls) l"
  by (simp add: splitLines_def)

lemma equalFold_nth:
  "equalFoldASCII t m \<Longrightarrow> i < length m \<Longrightarrow> lowerASCII (t ! i) = lowerASCII (m ! i)"
  unfolding equalFoldASCII_def by (metis length_map nth_map)

lemma equalFold_length: "equalFoldASCII t m \<Longrightarrow> length t = length m"
  unfolding equalFoldASCII_def by (metis length_map)

lemma HasPrefix_same_length: "HasPrefix t m \<Longrightarrow> length t = length m \<Longrightarrow> t = m"
  by (simp add: HasPrefix_def)

lemma HasPrefix_length: "HasPrefix t m \<Longrightarrow> length m \<le> length t"
  by (simp add: HasPrefix_def)

lemma case_variant_no_prefix:
  assumes f: "equalFoldASCII t m" and m: "m \<in> set markerKeywords"
    and t: "t \<notin> set markerKeywords" and m': "m' \<in> set markerKeywords"
  shows "\<not> HasPrefix t m'"
proof
  assume p: "HasPrefix t m'"
  have len: "length t = length m" using f by (rule equalFold_length)
  have ne: "length t \<noteq> length m'" using HasPrefix_same_length [OF p] t m' by auto
  have nth: "\<And>i. i < length m \<Longrightarrow> i < length m' \<Longrightarrow> lowerASCII (m' ! i) = lowerASCII (m ! i)"
    using equalFold_nth [OF f] HasPrefix_nth [OF p] by metis
  from m m' len ne HasPrefix_length [OF p] nth [of 2] nth [of 3]
  show False
    by (auto simp: markerKeywords_def lowerASCII_def)
qed

lemma case_variant_content:
  assumes "\<exists>m \<in> set markerKeywords. equalFoldASCII (TrimSpace line) m"
    and "TrimSpace line \<notin> set markerKeywords"
  shows "isContent line"
  using assms case_variant_no_prefix [of "TrimSpace line"]
  unfolding isContent_def isDownMarker_def isUpMarker_def
  by (auto simp: markerKeywords_def)

lemma HasPrefix_refl: "HasPrefix s s"
  by (simp add: HasPrefix_def)

text \<open>Claim C7, as the code has it. The marker is matched in upper case only: a line whose
  trimmed form is \<open>-- DOWN\<close> or \<open>--DOWN\<close> begins the reverse section and one whose
  trimmed form is \<open>-- UP\<close> or \<open>--UP\<close> resets to the forward section, but a line whose
  trimmed form is one of these keywords in any other letter case (such as \<open>-- down\<close>) is
  no marker: it is appended, unchanged, to the section the loop is in.\<close>

theorem marker_match_case_sensitive:
  "(TrimSpace line \<in> {''-- DOWN'', ''--DOWN''} \<longrightarrow>
      splitLines (pre @ [line]) = (splitLines pre)\<lparr>inDownSection := True\<rparr>) \<and>
   (TrimSpace line \<in> {''-- UP'', ''--UP''} \<longrightarrow>
      splitLines (pre @ [line]) = (splitLines pre)\<lparr>inDownSection := False\<rparr>) \<and>
   ((\<exists>m \<in> set markerKeywords. equalFoldASCII (TrimSpace line) m) \<and>
    TrimSpace line \<notin> set markerKeywords \<longrightarrow>
      splitLines (pre @ [line]) =
        (if inDownSection (splitLines pre)
         then (splitLines pre)\<lparr>downLines := downLines (splitLines pre) @ [line]\<rparr>
         else (splitLines pre)\<lparr>upLines := upLines (splitLines pre) @ [line]\<rparr>))"
proof (intro conjI impI)
  assume "TrimSpace line \<in> {''-- DOWN'', ''--DOWN''}"
  then have "isDownMarker line"
    unfolding isDownMarker_def using HasPrefix_refl [of "TrimSpace line"] by auto
  then show "splitLines (pre @ [line]) = (splitLines pre)\<lparr>inDownSection := True\<rparr>"
    by (simp add: splitLines_snoc splitLine_down)
next
  assume "TrimSpace line \<in> {''-- UP'', ''--UP''}"
  then have "isUpMarker line"
    unfolding isUpMarker_def using HasPrefix_refl [of "TrimSpace line"] by auto
  then show "splitLines (pre @ [line]) = (splitLines pre)\<lparr>inDownSection := False\<rparr>"
    by (simp add: splitLines_snoc splitLine_up)
next
  assume "(\<exists>m \<in> set markerKeywords. equalFoldASCII (TrimSpace line) m) \<and>
    TrimSpace line \<notin> set markerKeywords"
  then have "isContent line" by (simp add: case_variant_content)
  then show "splitLines (pre @ [line]) =
        (if inDownSection (splitLines pre)
         then (splitLines pre)\<lparr>downLines := downLines (splitLines pre) @ [line]\<rparr>
         else (splitLines pre)\<lparr>upLines := upLines (splitLines pre) @ [line]\<rparr>)"
    by (simp add: splitLines_snoc splitLine_content)
qed

lemma splitMigrationContent_Join:
  assumes "ls \<noteq> []" and "\<forall>l \<in> set ls. CHR 0x0A \<notin> set l"
  shows "splitMigrationContent (Join ls [CHR 0x0A]) =
     (Join (upLines (splitLines ls)) [CHR 0x0A], Join (downLines (splitLines ls)) [CHR 0x0A])"
  using assms by (simp add: splitMigrationContent_def Split_Join Let_def)

lemma splitLines_append: "splitLines (pre @ l # post) = foldl splitLine (splitLine (splitLines pre) l) post"
  by (simp add: splitLines_def)

text \<open>White space before a marker is trimmed away: a line made of ASCII white space, one
  of the marker keywords and any rest passes the test of the keyword.\<close>

lemma HasPrefix_Nil: "HasPrefix s [] = True"
  by (simp add: HasPrefix_def)

lemma HasPrefix_Cons: "HasPrefix (c # cs) (d # ds) = (c = d \<and> HasPrefix cs ds)"
  by (auto simp: HasPrefix_def)

lemma HasPrefix_Nil_Cons: "HasPrefix [] (d # ds) = False"
  by (simp add: HasPrefix_def)

lemma trimLeading_pad_char:
  assumes "c \<in> asciiPad"
  shows "trimLeading spaceEncodings (c # cs) = trimLeading spaceEncodings cs"
proof -
  from assms have "filter (HasPrefix (c # cs)) spaceEncodings = [[c]]"
    unfolding asciiPad_def spaceEncodings_def
    by (elim insertE emptyE) (simp_all add: HasPrefix_Cons HasPrefix_Nil)
  then show ?thesis by simp
qed

lemma TrimLeftSpace_pad:
  "set pad \<subseteq> asciiPad \<Longrightarrow> TrimLeftSpace (pad @ t) = TrimLeftSpace t"
  unfolding TrimLeftSpace_def
  by (induction pad) (simp_all add: trimLeading_pad_char del: trimLeading.simps)

lemma TrimLeftSpace_dash: "TrimLeftSpace (CHR ''-'' # cs) = CHR ''-'' # cs"
proof -
  have "filter (HasPrefix (CHR ''-'' # cs)) spaceEncodings = []"
    unfolding spaceEncodings_def by (simp add: HasPrefix_Cons HasPrefix_Nil)
  then show ?thesis by (simp add: TrimLeftSpace_def)
qed

lemma HasPrefix_nth_in:
  assumes "HasPrefix s e" and "i < length e"
  shows "s ! i \<in> set e"
  using assms HasPrefix_nth [of s e i] by (metis nth_mem)

lemma trimLeading_keeps:
  assumes "[] \<notin> set encs" and "\<forall>e \<in> set encs. c \<notin> set e"
  shows "\<exists>u'. trimLeading encs (u @ c # v) = u' @ c # v"
proof (induction "length u" arbitrary: u rule: less_induct)
  case less
  have short: "length e \<le> length u" if e: "e \<in> set encs" "HasPrefix (u @ c # v) e" for e
  proof (rule ccontr)
    assume "\<not> length e \<le> length u"
    then have "length u < length e" by simp
    from HasPrefix_nth_in [OF e(2) this] have "c \<in> set e" by simp
    with assms(2) e(1) show False by blast
  qed
  show ?case
  proof (cases u)
    case Nil
    have "filter (HasPrefix (c # v)) encs = []"
    proof (rule ccontr)
      assume "filter (HasPrefix (c # v)) encs \<noteq> []"
      then obtain e where e: "e \<in> set encs" "HasPrefix (c # v) e"
        by (auto simp: filter_empty_conv)
      with short [of e] Nil have "e = []" by simp
      with assms(1) e(1) show False by simp
    qed
    with Nil show ?thesis by simp
  next
    case (Cons a u0)
    show ?thesis
    proof (cases "filter (HasPrefix (a # u0 @ c # v)) encs")
      case Nil
      with Cons have "trimLeading encs (u @ c # v) = u @ c # v" by simp
      then show ?thesis by blast
    next
      case (Cons e es)
      then have "e \<in> set (filter (HasPrefix (a # u0 @ c # v)) encs)" by simp
      then have e: "e \<in> set encs" "HasPrefix (u @ c # v) e" using \<open>u = a # u0\<close> by simp_all
      from short [OF e] \<open>u = a # u0\<close> have le: "length e - 1 \<le> length u0" by simp
      have step: "trimLeading encs (u @ c # v) =
          trimLeading encs (drop (length e - 1) u0 @ c # v)"
        using Cons \<open>u = a # u0\<close> le by simp
      have "length (drop (length e - 1) u0) < length u" using \<open>u = a # u0\<close> by simp
      from less [OF this] step show ?thesis by simp
    qed
  qed
qed

lemma TrimRightSpace_keeps:
  assumes "\<forall>e \<in> set spaceEncodings. c \<notin> set e"
  shows "HasPrefix (TrimRightSpace (p @ c # r)) (p @ [c])"
proof -
  have 1: "[] \<notin> set (map rev spaceEncodings)" by (simp add: spaceEncodings_def)
  have 2: "\<forall>e \<in> set (map rev spaceEncodings). c \<notin> set e" using assms by simp
  from trimLeading_keeps [OF 1 2, of "rev r" "rev p"] obtain u' where
    "trimLeading (map rev spaceEncodings) (rev r @ c # rev p) = u' @ c # rev p" by blast
  then have "TrimRightSpace (p @ c # r) = (p @ [c]) @ rev u'"
    by (simp add: TrimRightSpace_def)
  then show ?thesis by (simp add: HasPrefix_def)
qed

lemma no_space_N: "\<forall>e \<in> set spaceEncodings. CHR ''N'' \<notin> set e"
  by (simp add: spaceEncodings_def)

lemma no_space_P: "\<forall>e \<in> set spaceEncodings. CHR ''P'' \<notin> set e"
  by (simp add: spaceEncodings_def)

lemma padded_down_marker:
  assumes "set pad \<subseteq> asciiPad" and "marker \<in> {''-- DOWN'', ''--DOWN''}"
  shows "isDownMarker (pad @ marker @ rest)"
proof -
  from assms(2) obtain cs where m: "marker = CHR ''-'' # cs" by auto
  have "TrimSpace (pad @ marker @ rest) = TrimRightSpace (marker @ rest)"
    using TrimLeftSpace_pad [OF assms(1)] TrimLeftSpace_dash [of "cs @ rest"] m
    by (simp add: TrimSpace_def)
  moreover have "HasPrefix (TrimRightSpace (marker @ rest)) marker"
    using assms(2) TrimRightSpace_keeps [OF no_space_N, of "''-- DOW''" rest]
      TrimRightSpace_keeps [OF no_space_N, of "''--DOW''" rest] by auto
  ultimately show ?thesis using assms(2) by (auto simp: isDownMarker_def)
qed

lemma padded_up_marker:
  assumes "set pad \<subseteq> asciiPad" and "marker \<in> {''-- UP'', ''--UP''}"
  shows "isUpMarker (pad @ marker @ rest)"
proof -
  from assms(2) obtain cs where m: "marker = CHR ''-'' # cs" by auto
  have "TrimSpace (pad @ marker @ rest) = TrimRightSpace (marker @ rest)"
    using TrimLeftSpace_pad [OF assms(1)] TrimLeftSpace_dash [of "cs @ rest"] m
    by (simp add: TrimSpace_def)
  moreover have "HasPrefix (TrimRightSpace (marker @ rest)) marker"
    using assms(2) TrimRightSpace_keeps [OF no_space_P, of "''-- U''" rest]
      TrimRightSpace_keeps [OF no_space_P, of "''--U''" rest] by auto
  ultimately show ?thesis using assms(2) by (auto simp: isUpMarker_def)
qed

text \<open>Claim C10. Marker detection is a prefix match on the trimmed line: a line whose
  trimmed content merely starts with a DOWN marker (an UP marker) switches the section to
  reverse (forward) and adds nothing to either body, whatever follows the keyword on that
  line. The result for the file is the one computed from the state after the lines before
  it, with only the section flag set, over the lines after it. This holds for each line
  that passes the test of the code, and so for each line that is ASCII white space, then
  \<open>-- DOWN\<close> or \<open>--DOWN\<close> (\<open>-- UP\<close> or \<open>--UP\<close>), then any rest, be it white space or
  the end of an ordinary comment.\<close>

theorem marker_prefix_consumes_line:
  assumes "\<forall>l \<in> set (pre @ line # post). CHR 0x0A \<notin> set l"
  shows "(isDownMarker line \<longrightarrow>
            splitMigrationContent (Join (pre @ line # post) [CHR 0x0A]) =
              (let st = foldl splitLine ((splitLines pre)\<lparr>inDownSection := True\<rparr>) post
               in (Join (upLines st) [CHR 0x0A], Join (downLines st) [CHR 0x0A]))) \<and>
         (isUpMarker line \<longrightarrow>
            splitMigrationContent (Join (pre @ line # post) [CHR 0x0A]) =
              (let st = foldl splitLine ((splitLines pre)\<lparr>inDownSection := False\<rparr>) post
               in (Join (upLines st) [CHR 0x0A], Join (downLines st) [CHR 0x0A]))) \<and>
         (set pad \<subseteq> asciiPad \<and> marker \<in> {''-- DOWN'', ''--DOWN''} \<and>
          line = pad @ marker @ rest \<longrightarrow>
            splitMigrationContent (Join (pre @ line # post) [CHR 0x0A]) =
              (let st = foldl splitLine ((splitLines pre)\<lparr>inDownSection := True\<rparr>) post
               in (Join (upLines st) [CHR 0x0A], Join (downLines st) [CHR 0x0A]))) \<and>
         (set pad \<subseteq> asciiPad \<and> marker \<in> {''-- UP'', ''--UP''} \<and>
          line = pad @ marker @ rest \<longrightarrow>
            splitMigrationContent (Join (pre @ line # post) [CHR 0x0A]) =
              (let st = foldl splitLine ((splitLines pre)\<lparr>inDownSection := False\<rparr>) post
               in (Join (upLines st) [CHR 0x0A], Join (downLines st) [CHR 0x0A])))"
proof -
  have eq: "splitMigrationContent (Join (pre @ line # post) [CHR 0x0A]) =
      (let st = foldl splitLine (splitLine (splitLines pre) line) post
       in (Join (upLines st) [CHR 0x0A], Join (downLines st) [CHR 0x0A]))"
    using splitMigrationContent_Join [of "pre @ line # post"] assms
    by (simp add: splitLines_append Let_def)
  have down: "set pad \<subseteq> asciiPad \<and> marker \<in> {''-- DOWN'', ''--DOWN''} \<and>
      line = pad @ marker @ rest \<longrightarrow> isDownMarker line"
    using padded_down_marker [of pad marker rest] by blast
  have up: "set pad \<subseteq> asciiPad \<and> marker \<in> {''-- UP'', ''--UP''} \<and>
      line = pad @ marker @ rest \<longrightarrow> isUpMarker line"
    using padded_up_marker [of pad marker rest] by blast
  have d: "isDownMarker line \<longrightarrow>
            splitMigrationContent (Join (pre @ line # post) [CHR 0x0A]) =
              (let st = foldl splitLine ((splitLines pre)\<lparr>inDownSection := True\<rparr>) post
               in (Join (upLines st) [CHR 0x0A], Join (downLines st) [CHR 0x0A]))"
    by (simp add: eq splitLine_down)
  have u: "isUpMarker line \<longrightarrow>
            splitMigrationContent (Join (pre @ line # post) [CHR 0x0A]) =
              (let st = foldl splitLine ((splitLines pre)\<lparr>inDownSection := False\<rparr>) post
               in (Join (upLines st) [CHR 0x0A], Join (downLines st) [CHR 0x0A]))"
    by (simp add: eq splitLine_up)
  from d u down up show ?thesis by blast
qed

lemma foldl_block:
  assumes "isUpMarker um" and "isDownMarker dm" and "\<forall>l \<in> set (u @ d). isContent l"
  shows "foldl splitLine st (um # u @ dm # d) =
     st\<lparr>upLines := upLines st @ u, downLines := downLines st @ d, inDownSection := True\<rparr>"
  using assms by (simp add: splitLine_up splitLine_down foldl_content)

lemma foldl_blocks:
  assumes "\<forall>(um, u, dm, d) \<in> set blocks.
             isUpMarker um \<and> isDownMarker dm \<and> (\<forall>l \<in> set (u @ d). isContent l)"
  shows "foldl splitLine st (concat (map (\<lambda>(um, u, dm, d). um # u @ dm # d) blocks)) =
     st\<lparr>upLines := upLines st @ concat (map (\<lambda>(um, u, dm, d). u) blocks),
        downLines := downLines st @ concat (map (\<lambda>(um, u, dm, d). d) blocks),
        inDownSection := (blocks \<noteq> [] \<or> inDownSection st)\<rparr>"
  using assms
proof (induction blocks arbitrary: st)
  case Nil
  then show ?case by simp
next
  case (Cons b blocks)
  obtain um u dm d where b: "b = (um, u, dm, d)" by (cases b) auto
  from Cons.prems b have blk: "isUpMarker um" "isDownMarker dm" "\<forall>l \<in> set (u @ d). isContent l"
    by auto
  from Cons.prems have rest: "\<forall>(um, u, dm, d) \<in> set blocks.
             isUpMarker um \<and> isDownMarker dm \<and> (\<forall>l \<in> set (u @ d). isContent l)"
    by simp
  let ?f = "\<lambda>(um, u, dm, d). um # u @ dm # d"
  have 1: "concat (map ?f (b # blocks)) = (um # u @ dm # d) @ concat (map ?f blocks)"
    by (simp add: b)
  have 2: "foldl splitLine st ((um # u @ dm # d) @ concat (map ?f blocks)) =
      foldl splitLine (foldl splitLine st (um # u @ dm # d)) (concat (map ?f blocks))"
    by (rule foldl_append)
  show ?case
    unfolding 1 2 foldl_block [OF blk] Cons.IH [OF rest] by (simp add: b case_prod_unfold)
qed

text \<open>Claim C8, as the code has it. For a file made of header lines followed by any number
  of blocks, each an UP marker line, forward lines, a DOWN marker line and reverse lines,
  the reverse section is the reverse lines of all the blocks joined in file order (and
  the forward section the header and the forward lines of all the blocks).\<close>

theorem down_section_joins_all_blocks:
  assumes hdr: "\<forall>l \<in> set header. isContent l"
    and blk: "\<forall>(um, u, dm, d) \<in> set blocks.
             isUpMarker um \<and> isDownMarker dm \<and> (\<forall>l \<in> set (u @ d). isContent l)"
    and nl: "\<forall>l \<in> set (header @ concat (map (\<lambda>(um, u, dm, d). um # u @ dm # d) blocks)).
             CHR 0x0A \<notin> set l"
  shows "splitMigrationContent
           (Join (header @ concat (map (\<lambda>(um, u, dm, d). um # u @ dm # d) blocks)) [CHR 0x0A]) =
         (Join (header @ concat (map (\<lambda>(um, u, dm, d). u) blocks)) [CHR 0x0A],
          Join (concat (map (\<lambda>(um, u, dm, d). d) blocks)) [CHR 0x0A])"
proof -
  let ?ls = "header @ concat (map (\<lambda>(um, u, dm, d). um # u @ dm # d) blocks)"
  have st: "splitLines ?ls =
     split_init\<lparr>upLines := header @ concat (map (\<lambda>(um, u, dm, d). u) blocks),
        downLines := concat (map (\<lambda>(um, u, dm, d). d) blocks),
        inDownSection := (blocks \<noteq> [])\<rparr>"
    using foldl_content [OF hdr, of split_init] foldl_blocks [OF blk]
    by (simp add: splitLines_def split_init_def)
  show ?thesis
  proof (cases "?ls = []")
    case True
    then have "header = []" "blocks = []" by (cases blocks; auto)+
    then show ?thesis
      by (simp add: splitMigrationContent_def splitLines_def splitLine_def split_init_def
          TrimSpace_def TrimLeftSpace_def TrimRightSpace_def HasPrefix_def)
  next
    case False
    show ?thesis
      using splitMigrationContent_Join [OF False nl] st by (simp add: split_init_def)
  qed
qed

lemmas split_eval = splitMigrationContent_def splitLines_def splitLine_def split_init_def
  TrimSpace_def TrimLeftSpace_def TrimRightSpace_def spaceEncodings_def HasPrefix_def
  isDownMarker_def isUpMarker_def isContent_def

text \<open>Claim C7, the three cases at concrete lines.\<close>

theorem marker_match_case_sensitive_witness:
  "TrimSpace ''  -- DOWN'' \<in> {''-- DOWN'', ''--DOWN''} \<and>
   splitLines ([''a''] @ [''  -- DOWN'']) = (splitLines [''a''])\<lparr>inDownSection := True\<rparr> \<and>
   TrimSpace ''--UP '' \<in> {''-- UP'', ''--UP''} \<and>
   splitLines ([''-- DOWN'', ''b''] @ [''--UP '']) =
     (splitLines [''-- DOWN'', ''b''])\<lparr>inDownSection := False\<rparr> \<and>
   (\<exists>m \<in> set markerKeywords. equalFoldASCII (TrimSpace ''-- down'') m) \<and>
   TrimSpace ''-- down'' \<notin> set markerKeywords \<and>
   splitLines ([''a''] @ [''-- down'']) =
     \<lparr>upLines = [''a'', ''-- down''], downLines = [], inDownSection = False\<rparr>"
  using marker_match_case_sensitive [of "''  -- DOWN''" "[''a'']"]
    marker_match_case_sensitive [of "''--UP ''" "[''-- DOWN'', ''b'']"]
    marker_match_case_sensitive [of "''-- down''" "[''a'']"]
  by (simp add: split_eval markerKeywords_def equalFoldASCII_def lowerASCII_def)

text \<open>Claim C7 as stated fails: after the line \<open>-- down\<close> the loop is still in the forward
  section, and the whole file, marker line included, is forward SQL.\<close>

theorem lower_case_marker_counterexample:
  "\<not> inDownSection (splitLines [''x'', ''-- down'']) \<and>
   splitMigrationContent ''x\<newline>-- down\<newline>y'' = (''x\<newline>-- down\<newline>y'', [])"
  by (simp add: split_eval)

text \<open>Claim C10 at the comments \<open>-- DOWNTIME note\<close>, set in by two spaces and followed by
  one, and \<open>--UPDATE existing rows\<close>, set in by a tab: each switches the section and is in
  neither body.\<close>

theorem marker_prefix_consumes_line_witness:
  "set ''  '' \<subseteq> asciiPad \<and>
   ''  -- DOWNTIME note '' = ''  '' @ ''-- DOWN'' @ ''TIME note '' \<and>
   splitMigrationContent
     ''CREATE TABLE t (a int);\<newline>  -- DOWNTIME note \<newline>ALTER TABLE t ADD b int;'' =
     (''CREATE TABLE t (a int);'', ''ALTER TABLE t ADD b int;'') \<and>
   set [CHR 0x09] \<subseteq> asciiPad \<and>
   [CHR 0x09] @ ''--UP'' @ ''DATE existing rows'' = CHR 0x09 # ''--UPDATE existing rows'' \<and>
   splitMigrationContent
     (''-- DOWN\<newline>DROP TABLE t;\<newline>'' @ CHR 0x09 # ''--UPDATE existing rows\<newline>UPDATE t SET a = 1;'') =
     (''UPDATE t SET a = 1;'', ''DROP TABLE t;'') \<and>
   isDownMarker ''-- DOWNTIME note'' \<and> isUpMarker ''-- UPDATE existing rows''"
  using marker_prefix_consumes_line [where pre = "[''CREATE TABLE t (a int);'']"
      and line = "''  -- DOWNTIME note ''" and post = "[''ALTER TABLE t ADD b int;'']"
      and pad = "''  ''" and marker = "''-- DOWN''" and rest = "''TIME note ''"]
    marker_prefix_consumes_line [where pre = "[''-- DOWN'', ''DROP TABLE t;'']"
      and line = "CHR 0x09 # ''--UPDATE existing rows''"
      and post = "[''UPDATE t SET a = 1;'']"
      and pad = "[CHR 0x09]" and marker = "''--UP''" and rest = "''DATE existing rows''"]
  by (simp add: split_eval asciiPad_def)

text \<open>Claim C8 as stated fails: with two DOWN blocks \<open>b\<close> and \<open>d\<close> the reverse section is
  both, not the last one alone.\<close>

theorem last_down_block_counterexample:
  "splitMigrationContent
     ''-- UP\<newline>a\<newline>-- DOWN\<newline>b\<newline>-- UP\<newline>c\<newline>-- DOWN\<newline>d'' =
     (''a\<newline>c'', ''b\<newline>d'') \<and>
   snd (splitMigrationContent
     ''-- UP\<newline>a\<newline>-- DOWN\<newline>b\<newline>-- UP\<newline>c\<newline>-- DOWN\<newline>d'') \<noteq> ''d''"
  by (simp add: split_eval)

text \<open>Claim C8, as the code has it, on a file with a header line and two blocks.\<close>

theorem down_section_joins_all_blocks_witness:
  "isContent ''-- Migration: x'' \<and>
   isUpMarker ''-- UP'' \<and> isContent ''a'' \<and> isDownMarker ''-- DOWN'' \<and> isContent ''b'' \<and>
   isUpMarker ''--UP'' \<and> isContent ''c'' \<and> isDownMarker ''  -- DOWN'' \<and> isContent ''d'' \<and>
   splitMigrationContent
     ''-- Migration: x\<newline>-- UP\<newline>a\<newline>-- DOWN\<newline>b\<newline>--UP\<newline>c\<newline>  -- DOWN\<newline>d'' =
     (''-- Migration: x\<newline>a\<newline>c'', ''b\<newline>d'')"
  using down_section_joins_all_blocks [of "[''-- Migration: x'']"
      "[(''-- UP'', [''a''], ''-- DOWN'', [''b'']), (''--UP'', [''c''], ''  -- DOWN'', [''d''])]"]
  by (simp add: split_eval)

section \<open>Properties of the runner\<close>

lemma tick_simps [simp]:
  "schema (tick s) = schema s" "table (tick s) = table s" "root_missing (tick s) = root_missing s"
  "walk (tick s) = walk s" "calls (tick s) = Suc (calls s)" "issued (tick s) = issued s"
  "logged (tick s) = logged s"
  by (simp_all add: tick_def)

lemma logf_simps [simp]:
  "schema (logf e s) = schema s" "table (logf e s) = table s"
  "root_missing (logf e s) = root_missing s"
  "walk (logf e s) = walk s" "calls (logf e s) = calls s" "issued (logf e s) = issued s"
  "logged (logf e s) = logged s @ [e]"
  by (simp_all add: logf_def)

lemma executeMigration_skip:
  assumes "\<not> conn_fails w (calls s)" and "Version m \<in> set (applied s)"
  shows "executeMigration w m s = (None, logf (LogSkipping (Version m) (Module m)) (tick s))"
proof -
  from assms(2) obtain t where t: "table s = Some t" "Version m \<in> set (map version (rows t))"
    by (cases "table s") (auto simp: applied_def)
  then have "filter (\<lambda>r. version r = Version m) (rows t) \<noteq> []"
    by (auto simp: filter_empty_conv)
  then show ?thesis
    using assms(1) t by (simp add: executeMigration_def countVersion_def)
qed

lemma executeMigration_error:
  assumes "executeMigration w m s = (Some e, s')"
  shows "table s' = table s \<and> schema s' = schema s \<and> logged s' = logged s \<and>
         root_missing s' = root_missing s \<and> walk s' = walk s"
  using assms
  by (auto simp: executeMigration_def txExec_def txCommit_def Let_def
      split: if_splits option.splits sum.splits prod.splits)

lemma executeMigration_frame:
  assumes "executeMigration w m s = (r, s')"
  shows "root_missing s' = root_missing s \<and> walk s' = walk s \<and> calls s < calls s'"
  using assms
  by (auto simp: executeMigration_def txExec_def txCommit_def Let_def
      split: if_splits option.splits sum.splits prod.splits)

lemma executeMigration_success:
  assumes "executeMigration w m s = (None, s')"
  shows "\<exists>t. table s = Some t \<and>
           (if Version m \<in> set (applied s)
            then table s' = table s \<and> schema s' = schema s \<and> issued s' = issued s \<and>
                 logged s' = logged s @ [LogSkipping (Version m) (Module m)]
            else has_module t \<and> has_file_path t \<and>
                 table s' = Some (t\<lparr>rows := rows t @ [newRow m (now w (Suc (calls s)))]\<rparr>) \<and>
                 logged s' = logged s @ [LogExecuted (Version m) (Description m) (Module m)])"
  using assms
  by (auto simp: executeMigration_def txExec_def txCommit_def Let_def applied_def
      countVersion_def insertRow_def newRow_def filter_empty_conv
      split: if_splits option.splits sum.splits prod.splits)
    (metis image_eqI)+

lemma executeMigration_applied:
  assumes "executeMigration w m s = (r, s')"
  shows "applied s' = (if r = None \<and> Version m \<notin> set (applied s)
                       then applied s @ [Version m] else applied s)"
proof (cases r)
  case None
  with assms executeMigration_success [of w m s s'] show ?thesis
    by (auto simp: applied_def newRow_def split: if_splits)
next
  case (Some e)
  with assms executeMigration_error [of w m s e s'] show ?thesis
    by (simp add: applied_def)
qed

lemma executeMigration_already:
  assumes "executeMigration w m s = (r, s')" and "Version m \<in> set (applied s)"
  shows "table s' = table s \<and> schema s' = schema s \<and> issued s' = issued s \<and>
         calls s' = Suc (calls s) \<and> (\<not> conn_fails w (calls s) \<longrightarrow> r = None)"
proof (cases "conn_fails w (calls s)")
  case True
  with assms(1) show ?thesis by (auto simp add: executeMigration_def)
next
  case False
  with assms executeMigration_skip [OF False assms(2)] show ?thesis by auto
qed

lemma executeAll_append:
  "executeAll w (xs @ ys) s =
     (case executeAll w xs s of (Some e, s1) \<Rightarrow> (Some e, s1) | (None, s1) \<Rightarrow> executeAll w ys s1)"
  by (induction xs arbitrary: s) (auto split: prod.splits option.splits)

lemma executeAll_frame:
  "executeAll w ms s = (r, s') \<Longrightarrow>
     root_missing s' = root_missing s \<and> walk s' = walk s \<and> calls s \<le> calls s'"
proof (induction ms arbitrary: s)
  case Nil
  then show ?case by simp
next
  case (Cons m ms)
  obtain r1 s1 where e: "executeMigration w m s = (r1, s1)" by (cases "executeMigration w m s")
  show ?case
  proof (cases r1)
    case None
    with Cons.prems e have "executeAll w ms s1 = (r, s')" by simp
    from Cons.IH [OF this] executeMigration_frame [OF e] show ?thesis by simp
  next
    case (Some err)
    with Cons.prems e have "s' = s1" by simp
    with executeMigration_frame [OF e] show ?thesis by simp
  qed
qed

lemma executeAll_success_applied:
  "executeAll w ms s = (None, s') \<Longrightarrow> set (applied s') = set (applied s) \<union> Version ` set ms"
proof (induction ms arbitrary: s)
  case Nil
  then show ?case by simp
next
  case (Cons m ms)
  obtain r1 s1 where e: "executeMigration w m s = (r1, s1)" by (cases "executeMigration w m s")
  with Cons.prems have r1: "r1 = None" by (cases r1) auto
  with Cons.prems e have rest: "executeAll w ms s1 = (None, s')" by simp
  have "set (applied s1) = insert (Version m) (set (applied s))"
    using executeMigration_applied [OF e] r1 by auto
  with Cons.IH [OF rest] show ?case by auto
qed

lemma executeAll_already:
  assumes "executeAll w ms s = (r, s')" and "Version ` set ms \<subseteq> set (applied s)"
  shows "table s' = table s \<and> schema s' = schema s \<and> issued s' = issued s \<and>
         ((\<forall>k \<ge> calls s. \<not> conn_fails w k) \<longrightarrow> r = None)"
  using assms
proof (induction ms arbitrary: s)
  case Nil
  then show ?case by simp
next
  case (Cons m ms)
  obtain r1 s1 where e: "executeMigration w m s = (r1, s1)" by (cases "executeMigration w m s")
  from Cons.prems(2) have m: "Version m \<in> set (applied s)" by simp
  note al = executeMigration_already [OF e m]
  show ?case
  proof (cases r1)
    case None
    with Cons.prems e have rest: "executeAll w ms s1 = (r, s')" by simp
    have "applied s1 = applied s" using al by (simp add: applied_def)
    with Cons.prems(2) have "Version ` set ms \<subseteq> set (applied s1)" by simp
    from Cons.IH [OF rest this] al show ?thesis by auto
  next
    case (Some err)
    with Cons.prems e have "s' = s1" "r \<noteq> None" by auto
    with al Some show ?thesis by auto
  qed
qed

lemma execOnTable_frame:
  assumes "execOnTable w q f s = (r, s')"
  shows "schema s' = schema s \<and> issued s' = issued s \<and> root_missing s' = root_missing s \<and>
         walk s' = walk s \<and> logged s' = logged s \<and> calls s' = Suc (calls s) \<and>
         (r = None \<longrightarrow> table s' = f (table s) \<and> f (table s) \<noteq> None) \<and>
         (r \<noteq> None \<longrightarrow> table s' = table s)"
  using assms by (auto simp: execOnTable_def split: if_splits option.splits)

lemma migrateMigrationsTable_frame:
  assumes "migrateMigrationsTable w s = (r, s')"
  shows "schema s' = schema s \<and> issued s' = issued s \<and> root_missing s' = root_missing s \<and>
         walk s' = walk s \<and> calls s < calls s'"
proof (cases "conn_fails w (calls s) \<or> (case table s of None \<Rightarrow> False | Some t \<Rightarrow> has_module t)")
  case True
  with assms show ?thesis
    by (auto simp: migrateMigrationsTable_def Let_def split: if_splits)
next
  case False
  obtain r2 s2 where a: "execOnTable w ''ALTER TABLE public.migrations ADD COLUMN module VARCHAR(100)''
      addModuleColumn (logf LogMigratingTable (tick s)) = (r2, s2)"
    by (metis surj_pair)
  obtain r3 s3 where b: "execOnTable w ''ALTER TABLE public.migrations ADD COLUMN file_path VARCHAR(500)''
      addFilePathColumn s2 = (r3, s3)"
    by (metis surj_pair)
  obtain r4 s4 where c: "execOnTable w
      ''UPDATE public.migrations SET module = 'legacy' WHERE module IS NULL''
      setLegacyModule s3 = (r4, s4)"
    by (metis surj_pair)
  from execOnTable_frame [OF a] execOnTable_frame [OF b] execOnTable_frame [OF c] assms False a b c
  show ?thesis
    by (auto simp: migrateMigrationsTable_def Let_def split: if_splits option.splits)
qed

lemma migrateMigrationsTable_ok:
  assumes "migrateMigrationsTable w s = (None, s')"
  shows "\<exists>t. table s' = Some t \<and> has_module t"
proof (cases "conn_fails w (calls s) \<or> (case table s of None \<Rightarrow> False | Some t \<Rightarrow> has_module t)")
  case True
  with assms show ?thesis
    by (auto simp: migrateMigrationsTable_def Let_def split: if_splits option.splits)
next
  case False
  obtain r2 s2 where a: "execOnTable w ''ALTER TABLE public.migrations ADD COLUMN module VARCHAR(100)''
      addModuleColumn (logf LogMigratingTable (tick s)) = (r2, s2)"
    by (metis surj_pair)
  obtain r3 s3 where b: "execOnTable w ''ALTER TABLE public.migrations ADD COLUMN file_path VARCHAR(500)''
      addFilePathColumn s2 = (r3, s3)"
    by (metis surj_pair)
  obtain r4 s4 where c: "execOnTable w
      ''UPDATE public.migrations SET module = 'legacy' WHERE module IS NULL''
      setLegacyModule s3 = (r4, s4)"
    by (metis surj_pair)
  from assms False a b c have r: "r2 = None" "r3 = None" "r4 = None" "table s' = table s4"
    by (auto simp: migrateMigrationsTable_def Let_def split: if_splits option.splits)
  from execOnTable_frame [OF c] r have "table s4 = setLegacyModule (table s3)"
    "setLegacyModule (table s3) \<noteq> None" by auto
  then show ?thesis using r
    by (auto simp: setLegacyModule_def split: option.splits if_splits)
qed

lemma migrateMigrationsTable_current:
  assumes "migrateMigrationsTable w s = (r, s')" and "table s = Some t" and "has_module t"
  shows "table s' = table s \<and> logged s' = logged s \<and>
         (\<not> conn_fails w (calls s) \<longrightarrow> r = None)"
  using assms by (auto simp: migrateMigrationsTable_def Let_def split: if_splits)

lemma createMigrationsTable_frame:
  assumes "createMigrationsTable w s = (r, s')"
  shows "schema s' = schema s \<and> issued s' = issued s \<and> root_missing s' = root_missing s \<and>
         walk s' = walk s \<and> calls s < calls s'"
proof -
  obtain r1 s1 where a: "execOnTable w ''CREATE TABLE IF NOT EXISTS public.migrations''
      createTableIfNotExists s = (r1, s1)"
    by (metis surj_pair)
  obtain r2 s2 where b: "migrateMigrationsTable w s1 = (r2, s2)" by (metis surj_pair)
  from execOnTable_frame [OF a] migrateMigrationsTable_frame [OF b] assms a b
  show ?thesis
    by (auto simp: createMigrationsTable_def split: option.splits)
qed

lemma createMigrationsTable_ok:
  assumes "createMigrationsTable w s = (None, s')"
  shows "\<exists>t. table s' = Some t \<and> has_module t"
proof -
  obtain r1 s1 where a: "execOnTable w ''CREATE TABLE IF NOT EXISTS public.migrations''
      createTableIfNotExists s = (r1, s1)"
    by (metis surj_pair)
  obtain r2 s2 where b: "migrateMigrationsTable w s1 = (r2, s2)" by (metis surj_pair)
  from assms a b have "r2 = None" "s2 = s'"
    by (auto simp: createMigrationsTable_def split: option.splits)
  with migrateMigrationsTable_ok b show ?thesis by blast
qed

lemma createMigrationsTable_current:
  assumes "createMigrationsTable w s = (r, s')" and "table s = Some t" and "has_module t"
  shows "table s' = table s \<and> logged s' = logged s \<and>
         ((\<forall>k \<ge> calls s. \<not> conn_fails w k) \<longrightarrow> r = None)"
proof -
  obtain r1 s1 where a: "execOnTable w ''CREATE TABLE IF NOT EXISTS public.migrations''
      createTableIfNotExists s = (r1, s1)"
    by (metis surj_pair)
  obtain r2 s2 where b: "migrateMigrationsTable w s1 = (r2, s2)" by (metis surj_pair)
  note fa = execOnTable_frame [OF a]
  show ?thesis
  proof (cases r1)
    case None
    with fa assms(2) have t1: "table s1 = Some t" by (simp add: createTableIfNotExists_def)
    from migrateMigrationsTable_current [OF b t1 assms(3)] fa assms(1) a b None t1 assms(2)
    show ?thesis by (auto simp: createMigrationsTable_def split: option.splits)
  next
    case (Some e)
    with fa assms a have "s' = s1" "r = Some e" "conn_fails w (calls s)"
      by (auto simp: createMigrationsTable_def execOnTable_def createTableIfNotExists_def
          split: if_splits option.splits)
    with fa Some show ?thesis by auto
  qed
qed

lemma mkdirAll_ok: "mkdirAll w dirs made = (None, made') \<Longrightarrow> made' = rev dirs @ made"
  by (induction dirs arbitrary: made) (auto split: if_splits)

lemma createMigrationDirectories_frame:
  assumes "createMigrationDirectories w s = (r, s')"
  shows "schema s' = schema s \<and> table s' = table s \<and> calls s' = calls s \<and>
         issued s' = issued s \<and> logged s' = logged s \<and> (r = None \<longrightarrow> \<not> root_missing s')"
proof -
  obtain e made where m: "mkdirAll w [migrationsDir @ ''/user_management'',
      migrationsDir @ ''/sensor_data'', migrationsDir @ ''/cross_module''] [] = (e, made)"
    by (metis surj_pair)
  have "e = None \<Longrightarrow> made \<noteq> []"
  proof -
    assume "e = None"
    with m mkdirAll_ok [of w "[migrationsDir @ ''/user_management'',
      migrationsDir @ ''/sensor_data'', migrationsDir @ ''/cross_module'']" "[]" made]
    show "made \<noteq> []" by simp
  qed
  with assms m show ?thesis
    by (auto simp: createMigrationDirectories_def split: if_splits)
qed

lemma ensureDirectories_frame:
  assumes "ensureDirectories w s = (r, s')"
  shows "schema s' = schema s \<and> table s' = table s \<and> calls s' = calls s \<and>
         issued s' = issued s \<and> (r = None \<longrightarrow> \<not> root_missing s') \<and>
         (\<not> root_missing s \<longrightarrow> s' = s \<and> r = None)"
proof (cases "root_missing s")
  case False
  with assms show ?thesis by (simp add: ensureDirectories_def)
next
  case True
  obtain r1 s1 where c: "createMigrationDirectories w (logf (LogDirMissing migrationsDir) s) = (r1, s1)"
    by (metis surj_pair)
  from createMigrationDirectories_frame [OF c] assms True c show ?thesis
    by (auto simp: ensureDirectories_def createDefaultMigrationFiles_def split: option.splits)
qed

lemma loadMigrationsFromFiles_frame:
  assumes "loadMigrationsFromFiles w s = (r, s')"
  shows "schema s' = schema s \<and> table s' = table s \<and> calls s' = calls s \<and>
         issued s' = issued s \<and>
         (\<forall>ms. r = Inr ms \<longrightarrow> \<not> root_missing s' \<and> walkDir w (walk s') [] = Inr ms)"
proof -
  obtain r1 s1 where e: "ensureDirectories w s = (r1, s1)" by (metis surj_pair)
  from ensureDirectories_frame [OF e] assms e show ?thesis
    by (auto simp: loadMigrationsFromFiles_def split: option.splits sum.splits)
qed

lemma loadMigrationsFromFiles_present:
  assumes "\<not> root_missing s" and "walkDir w (walk s) [] = Inr ms"
  shows "loadMigrationsFromFiles w s = (Inr ms, s)"
  using assms by (simp add: loadMigrationsFromFiles_def ensureDirectories_def)

lemma executeMigration_columns:
  assumes "executeMigration w m s = (r, s')"
  shows "map_option has_module (table s') = map_option has_module (table s)"
proof (cases r)
  case None
  with assms executeMigration_success [of w m s s'] show ?thesis
    by (auto split: if_splits)
next
  case (Some e)
  with assms executeMigration_error [of w m s e s'] show ?thesis by simp
qed

lemma executeAll_columns:
  "executeAll w ms s = (r, s') \<Longrightarrow>
     map_option has_module (table s') = map_option has_module (table s)"
proof (induction ms arbitrary: s)
  case Nil
  then show ?case by simp
next
  case (Cons m ms)
  obtain r1 s1 where e: "executeMigration w m s = (r1, s1)" by (cases "executeMigration w m s")
  show ?case
  proof (cases r1)
    case None
    with Cons.prems e have "executeAll w ms s1 = (r, s')" by simp
    from Cons.IH [OF this] executeMigration_columns [OF e] show ?thesis by simp
  next
    case (Some err)
    with Cons.prems e have "s' = s1" by simp
    with executeMigration_columns [OF e] show ?thesis by simp
  qed
qed

lemma RunMigrations_success:
  assumes "RunMigrations w s = (None, s')"
  obtains s1 s2 s3 ms where "createMigrationsTable w s = (None, s1)"
    and "loadMigrationsFromFiles w s1 = (Inr ms, s2)"
    and "executeAll w (sort_Slice w versionLess ms) s2 = (None, s3)"
    and "s' = logf LogAllExecuted s3"
  using assms
  by (auto simp: RunMigrations_def split: prod.splits option.splits sum.splits)

text \<open>Claim C1. A migration whose version is in the ledger is skipped without error (the
  query that counts it must get through): nothing but the call counter and the log
  changes. So after a run of \<open>RunMigrations\<close> that returned no error, a second run over
  the same files leaves the ledger and the schema as they are and sends no migration
  SQL; and it returns no error either, unless a call to the database fails.\<close>

theorem apply_all_idempotent:
  "(\<not> conn_fails w (calls s) \<and> Version m \<in> set (applied s) \<longrightarrow>
      executeMigration w m s = (None, logf (LogSkipping (Version m) (Module m)) (tick s))) \<and>
   (RunMigrations w s = (None, s') \<longrightarrow>
      (case RunMigrations w s' of
         (r, s'') \<Rightarrow>
           table s'' = table s' \<and> schema s'' = schema s' \<and> issued s'' = issued s' \<and>
           ((\<forall>k \<ge> calls s'. \<not> conn_fails w k) \<longrightarrow> r = None)))"
proof (intro conjI impI)
  assume "\<not> conn_fails w (calls s) \<and> Version m \<in> set (applied s)"
  then show "executeMigration w m s = (None, logf (LogSkipping (Version m) (Module m)) (tick s))"
    by (simp add: executeMigration_skip)
next
  assume run: "RunMigrations w s = (None, s')"
  then obtain s1 s2 s3 ms where c1: "createMigrationsTable w s = (None, s1)"
    and l1: "loadMigrationsFromFiles w s1 = (Inr ms, s2)"
    and x1: "executeAll w (sort_Slice w versionLess ms) s2 = (None, s3)"
    and s': "s' = logf LogAllExecuted s3"
    by (rule RunMigrations_success)
  let ?sorted = "sort_Slice w versionLess ms"
  from createMigrationsTable_ok [OF c1] obtain t1 where t1: "table s1 = Some t1" "has_module t1"
    by blast
  note lf = loadMigrationsFromFiles_frame [OF l1]
  from lf t1 have "map_option has_module (table s2) = Some True" by simp
  with executeAll_columns [OF x1] obtain t3 where t3: "table s3 = Some t3" "has_module t3"
    by (cases "table s3") auto
  from lf have tree2: "\<not> root_missing s2" "walkDir w (walk s2) [] = Inr ms" by auto
  with executeAll_frame [OF x1] have tree3: "\<not> root_missing s3" "walkDir w (walk s3) [] = Inr ms"
    by auto
  from executeAll_success_applied [OF x1] have all: "Version ` set ?sorted \<subseteq> set (applied s3)"
    by auto
  obtain ra sa where c2: "createMigrationsTable w s' = (ra, sa)" by (metis surj_pair)
  have ts': "table s' = Some t3" using s' t3 by simp
  note cc = createMigrationsTable_current [OF c2 ts' t3(2)]
  note cf = createMigrationsTable_frame [OF c2]
  show "case RunMigrations w s' of
         (r, s'') \<Rightarrow>
           table s'' = table s' \<and> schema s'' = schema s' \<and> issued s'' = issued s' \<and>
           ((\<forall>k \<ge> calls s'. \<not> conn_fails w k) \<longrightarrow> r = None)"
  proof (cases ra)
    case (Some e)
    with c2 have "RunMigrations w s' = (Some (Errorf ''failed to create migrations table'' e), sa)"
      by (simp add: RunMigrations_def)
    with cc cf Some show ?thesis by auto
  next
    case None
    from cf tree3 s' have "\<not> root_missing sa" "walkDir w (walk sa) [] = Inr ms" by auto
    then have l2: "loadMigrationsFromFiles w sa = (Inr ms, sa)"
      by (rule loadMigrationsFromFiles_present)
    obtain rb sb where x2: "executeAll w ?sorted sa = (rb, sb)" by (metis surj_pair)
    have "applied sa = applied s3" using cc s' by (simp add: applied_def)
    with all have "Version ` set ?sorted \<subseteq> set (applied sa)" by simp
    note al = executeAll_already [OF x2 this]
    have run2: "RunMigrations w s' =
        (case rb of Some err \<Rightarrow> (Some err, sb) | None \<Rightarrow> (None, logf LogAllExecuted sb))"
      using c2 None l2 x2 by (simp add: RunMigrations_def)
    from cf have "calls s' \<le> calls sa" by simp
    then have "(\<forall>k \<ge> calls s'. \<not> conn_fails w k) \<Longrightarrow> (\<forall>k \<ge> calls sa. \<not> conn_fails w k)"
      by auto
    with al have rb: "(\<forall>k \<ge> calls s'. \<not> conn_fails w k) \<longrightarrow> rb = None" by blast
    from al cc cf rb show ?thesis
      unfolding run2 by (cases rb) simp_all
  qed
qed

lemma prefixApplied_iff:
  "prefixApplied vs L = (\<exists>k \<le> length vs. set L \<inter> set vs = set (take k vs))"
proof -
  have a: "set (filter (\<lambda>v. v \<in> set vs) L) = set L \<inter> set vs" by auto
  have b: "(\<exists>k \<in> set [0..<Suc (length vs)]. P k) = (\<exists>k \<le> length vs. P k)" for P
    by (auto simp del: upt_Suc simp: less_Suc_eq_le)
  show ?thesis unfolding prefixApplied_def list_ex_iff a b ..
qed

lemma executeAll_error:
  "executeAll w ms s = (Some e, s') \<Longrightarrow>
     \<exists>pre m post e1 s1. ms = pre @ m # post \<and> executeAll w pre s = (None, s1) \<and>
        executeMigration w m s1 = (Some e1, s') \<and>
        e = Errorf (''failed to execute migration '' @ Version m) e1"
proof (induction ms arbitrary: s)
  case Nil
  then show ?case by simp
next
  case (Cons m ms)
  obtain r1 s1 where e: "executeMigration w m s = (r1, s1)" by (cases "executeMigration w m s")
  show ?case
  proof (cases r1)
    case None
    with Cons.prems e have "executeAll w ms s1 = (Some e, s')" by simp
    from Cons.IH [OF this] obtain pre m' post e1 s2 where
      "ms = pre @ m' # post" "executeAll w pre s1 = (None, s2)"
      "executeMigration w m' s2 = (Some e1, s')"
      "e = Errorf (''failed to execute migration '' @ Version m') e1" by blast
    with e None have "m # ms = (m # pre) @ m' # post \<and> executeAll w (m # pre) s = (None, s2) \<and>
        executeMigration w m' s2 = (Some e1, s') \<and>
        e = Errorf (''failed to execute migration '' @ Version m') e1" by simp
    then show ?thesis by blast
  next
    case (Some e1)
    with Cons.prems e have "m # ms = [] @ m # ms \<and> executeAll w [] s = (None, s) \<and>
        executeMigration w m s = (Some e1, s') \<and>
        e = Errorf (''failed to execute migration '' @ Version m) e1" by auto
    then show ?thesis by blast
  qed
qed

lemma executeMigration_issued:
  assumes "executeMigration w m s = (r, s')"
  shows "issued s' = issued s \<or> issued s' = issued s @ [UpSQL m]"
  using assms
  by (auto simp: executeMigration_def txExec_def txCommit_def Let_def
      split: if_splits option.splits sum.splits prod.splits)

lemma executeAll_applied_take:
  "executeAll w ms s = (r, s') \<Longrightarrow>
     \<exists>j \<le> length ms. set (applied s') = set (applied s) \<union> Version ` set (take j ms) \<and>
        (r = None \<longrightarrow> j = length ms)"
proof (induction ms arbitrary: s)
  case Nil
  then show ?case by simp
next
  case (Cons m ms)
  obtain r1 s1 where e: "executeMigration w m s = (r1, s1)" by (cases "executeMigration w m s")
  note ap = executeMigration_applied [OF e]
  show ?case
  proof (cases r1)
    case (Some err)
    with Cons.prems e have "s' = s1" "r \<noteq> None" by auto
    with ap Some have "0 \<le> length (m # ms) \<and>
        set (applied s') = set (applied s) \<union> Version ` set (take 0 (m # ms)) \<and>
        (r = None \<longrightarrow> 0 = length (m # ms))" by simp
    then show ?thesis by blast
  next
    case None
    with Cons.prems e have "executeAll w ms s1 = (r, s')" by simp
    from Cons.IH [OF this] obtain j where j: "j \<le> length ms"
      "set (applied s') = set (applied s1) \<union> Version ` set (take j ms)"
      "r = None \<longrightarrow> j = length ms" by blast
    from ap None have "set (applied s1) = insert (Version m) (set (applied s))" by auto
    with j have "Suc j \<le> length (m # ms) \<and>
        set (applied s') = set (applied s) \<union> Version ` set (take (Suc j) (m # ms)) \<and>
        (r = None \<longrightarrow> Suc j = length (m # ms))" by auto
    then show ?thesis by blast
  qed
qed

lemma take_max_union: "set (take k xs) \<union> set (take j xs) = set (take (max k j) xs)"
proof (cases "k \<le> j")
  case True
  then have "set (take k xs) \<subseteq> set (take j xs)" by (rule set_take_subset_set_take)
  with True show ?thesis by (auto simp: max_def)
next
  case False
  then have "set (take j xs) \<subseteq> set (take k xs)" by (intro set_take_subset_set_take) simp
  with False show ?thesis by (auto simp: max_def)
qed

lemma executeAll_prefix:
  assumes "executeAll w ms s = (r, s')"
    and "prefixApplied (map Version ms) (applied s)"
  shows "prefixApplied (map Version ms) (applied s')"
proof -
  let ?vs = "map Version ms"
  from assms(2) obtain k where k: "k \<le> length ?vs" "set (applied s) \<inter> set ?vs = set (take k ?vs)"
    by (auto simp: prefixApplied_iff)
  from executeAll_applied_take [OF assms(1)] obtain j where j: "j \<le> length ms"
    "set (applied s') = set (applied s) \<union> Version ` set (take j ms)" by blast
  have "Version ` set (take j ms) = set (take j ?vs)" by (simp add: take_map)
  moreover have "set (take j ?vs) \<subseteq> set ?vs" by (rule set_take_subset)
  ultimately have "set (applied s') \<inter> set ?vs = set (take k ?vs) \<union> set (take j ?vs)"
    using j(2) k(2) by blast
  then have "set (applied s') \<inter> set ?vs = set (take (max k j) ?vs)"
    by (simp add: take_max_union)
  moreover have "max k j \<le> length ?vs" using k(1) j(1) by simp
  ultimately show ?thesis unfolding prefixApplied_iff by blast
qed

lemma processed_append: "processed (xs @ ys) = processed xs @ processed ys"
  by (induction xs rule: processed.induct) simp_all

lemma executeMigration_processed:
  assumes "executeMigration w m s = (r, s')"
  shows "processed (logged s') = processed (logged s) @ (if r = None then [Version m] else [])"
proof (cases r)
  case None
  with assms executeMigration_success [of w m s s'] show ?thesis
    by (auto simp: processed_append split: if_splits)
next
  case (Some e)
  with assms executeMigration_error [of w m s e s'] show ?thesis by simp
qed

lemma executeAll_processed:
  "executeAll w ms s = (r, s') \<Longrightarrow>
     \<exists>k \<le> length ms. processed (logged s') = processed (logged s) @ take k (map Version ms) \<and>
        (r = None \<longrightarrow> k = length ms)"
proof (induction ms arbitrary: s)
  case Nil
  then show ?case by simp
next
  case (Cons m ms)
  obtain r1 s1 where e: "executeMigration w m s = (r1, s1)" by (cases "executeMigration w m s")
  note p = executeMigration_processed [OF e]
  show ?case
  proof (cases r1)
    case (Some err)
    with Cons.prems e have "s' = s1" "r \<noteq> None" by auto
    with p Some have "0 \<le> length (m # ms) \<and>
        processed (logged s') = processed (logged s) @ take 0 (map Version (m # ms)) \<and>
        (r = None \<longrightarrow> 0 = length (m # ms))" by simp
    then show ?thesis by blast
  next
    case None
    with Cons.prems e have "executeAll w ms s1 = (r, s')" by simp
    from Cons.IH [OF this] obtain k where k: "k \<le> length ms"
      "processed (logged s') = processed (logged s1) @ take k (map Version ms)"
      "r = None \<longrightarrow> k = length ms" by blast
    with p None have "Suc k \<le> length (m # ms) \<and>
        processed (logged s') = processed (logged s) @ take (Suc k) (map Version (m # ms)) \<and>
        (r = None \<longrightarrow> Suc k = length (m # ms))" by simp
    then show ?thesis by blast
  qed
qed

lemma migrateMigrationsTable_processed:
  assumes "migrateMigrationsTable w s = (r, s')"
  shows "processed (logged s') = processed (logged s)"
proof (cases "conn_fails w (calls s) \<or> (case table s of None \<Rightarrow> False | Some t \<Rightarrow> has_module t)")
  case True
  with assms show ?thesis
    by (auto simp: migrateMigrationsTable_def Let_def split: if_splits)
next
  case False
  obtain r2 s2 where a: "execOnTable w ''ALTER TABLE public.migrations ADD COLUMN module VARCHAR(100)''
      addModuleColumn (logf LogMigratingTable (tick s)) = (r2, s2)"
    by (metis surj_pair)
  obtain r3 s3 where b: "execOnTable w ''ALTER TABLE public.migrations ADD COLUMN file_path VARCHAR(500)''
      addFilePathColumn s2 = (r3, s3)"
    by (metis surj_pair)
  obtain r4 s4 where c: "execOnTable w
      ''UPDATE public.migrations SET module = 'legacy' WHERE module IS NULL''
      setLegacyModule s3 = (r4, s4)"
    by (metis surj_pair)
  from execOnTable_frame [OF a] execOnTable_frame [OF b] execOnTable_frame [OF c] assms False a b c
  show ?thesis
    by (auto simp: migrateMigrationsTable_def Let_def processed_append
        split: if_splits option.splits)
qed

lemma createMigrationsTable_processed:
  assumes "createMigrationsTable w s = (r, s')"
  shows "processed (logged s') = processed (logged s)"
proof -
  obtain r1 s1 where a: "execOnTable w ''CREATE TABLE IF NOT EXISTS public.migrations''
      createTableIfNotExists s = (r1, s1)"
    by (metis surj_pair)
  obtain r2 s2 where b: "migrateMigrationsTable w s1 = (r2, s2)" by (metis surj_pair)
  from execOnTable_frame [OF a] migrateMigrationsTable_processed [OF b] assms a b
  show ?thesis
    by (auto simp: createMigrationsTable_def split: option.splits)
qed

lemma loadMigrationsFromFiles_processed:
  assumes "loadMigrationsFromFiles w s = (r, s')"
  shows "processed (logged s') = processed (logged s)"
proof -
  obtain r1 s1 where e: "ensureDirectories w s = (r1, s1)" by (metis surj_pair)
  have "processed (logged s1) = processed (logged s)"
  proof (cases "root_missing s")
    case False
    with e show ?thesis by (simp add: ensureDirectories_def)
  next
    case True
    obtain r2 s2 where c: "createMigrationDirectories w (logf (LogDirMissing migrationsDir) s) = (r2, s2)"
      by (metis surj_pair)
    from createMigrationDirectories_frame [OF c] e True c show ?thesis
      by (auto simp: ensureDirectories_def createDefaultMigrationFiles_def processed_append
          split: option.splits)
  qed
  with assms e show ?thesis
    by (auto simp: loadMigrationsFromFiles_def split: option.splits sum.splits)
qed

text \<open>What is read from the files depends on the tree only.\<close>

lemma loadMigrationsFromFiles_tree:
  assumes "root_missing s1 = root_missing s" and "walk s1 = walk s"
  shows "fst (loadMigrationsFromFiles w s1) = fst (loadMigrationsFromFiles w s)"
  using assms
  by (auto simp: loadMigrationsFromFiles_def ensureDirectories_def
      createMigrationDirectories_def createDefaultMigrationFiles_def
      split: prod.splits option.splits sum.splits if_splits)

text \<open>Claim C3. Provided \<open>sort.Slice\<close> sorts, the migrations that \<open>RunMigrations\<close> goes
  through are the files it read, put in ascending order of the integer value of their
  versions, and it goes through them in that order: the versions it skipped or executed
  are the first \<open>k\<close> versions of the sorted list, and all of them when it returns no
  error.\<close>

theorem migrations_run_in_version_order:
  assumes run: "RunMigrations w s = (r, s')"
    and srt: "sortsBy (sort_Slice w) versionLess"
    and corpus: "fst (loadMigrationsFromFiles w s) = Inr ms"
  shows "mset (sort_Slice w versionLess ms) = mset ms \<and>
         sorted_wrt (\<lambda>a b. fst (Atoi (Version a)) \<le> fst (Atoi (Version b)))
           (sort_Slice w versionLess ms) \<and>
         (\<exists>k \<le> length ms.
            processed (logged s') =
              processed (logged s) @ take k (map Version (sort_Slice w versionLess ms)) \<and>
            (r = None \<longrightarrow> k = length ms))"
proof -
  let ?sorted = "sort_Slice w versionLess ms"
  from srt have perm: "mset ?sorted = mset ms"
    and ord: "sorted_wrt (\<lambda>a b. \<not> versionLess b a) ?sorted"
    by (simp_all add: sortsBy_def)
  have "(\<lambda>a b. \<not> versionLess b a) =
        (\<lambda>a b. fst (Atoi (Version a)) \<le> fst (Atoi (Version b)))"
    by (auto simp: versionLess_def fun_eq_iff)
  with ord have ord': "sorted_wrt (\<lambda>a b. fst (Atoi (Version a)) \<le> fst (Atoi (Version b))) ?sorted"
    by simp
  from perm have len: "length ?sorted = length ms" by (metis size_mset)
  obtain r1 s1 where c: "createMigrationsTable w s = (r1, s1)" by (metis surj_pair)
  note cf = createMigrationsTable_frame [OF c]
  note cp = createMigrationsTable_processed [OF c]
  have trace: "\<exists>k \<le> length ms.
            processed (logged s') = processed (logged s) @ take k (map Version ?sorted) \<and>
            (r = None \<longrightarrow> k = length ms)"
  proof (cases r1)
    case (Some e)
    with run c have "s' = s1" "r \<noteq> None" by (auto simp: RunMigrations_def)
    with cp have "0 \<le> length ms \<and>
        processed (logged s') = processed (logged s) @ take 0 (map Version ?sorted) \<and>
        (r = None \<longrightarrow> 0 = length ms)" by auto
    then show ?thesis by blast
  next
    case None
    obtain r2 s2 where l: "loadMigrationsFromFiles w s1 = (r2, s2)" by (metis surj_pair)
    from loadMigrationsFromFiles_tree [of s1 s w] cf corpus l have r2: "r2 = Inr ms" by simp
    note lp = loadMigrationsFromFiles_processed [OF l]
    obtain r3 s3 where x: "executeAll w ?sorted s2 = (r3, s3)" by (metis surj_pair)
    from executeAll_processed [OF x] obtain k where k: "k \<le> length ?sorted"
      "processed (logged s3) = processed (logged s2) @ take k (map Version ?sorted)"
      "r3 = None \<longrightarrow> k = length ?sorted" by blast
    from run c None l r2 x have "r = r3" "processed (logged s') = processed (logged s3)"
      by (auto simp: RunMigrations_def processed_append split: option.splits)
    with k lp cp len have "k \<le> length ms \<and>
        processed (logged s') = processed (logged s) @ take k (map Version ?sorted) \<and>
        (r = None \<longrightarrow> k = length ms)" by simp
    then show ?thesis by blast
  qed
  from perm ord' trace show ?thesis by blast
qed

lemma latestRow_max:
  "latestRow rs = Some r \<Longrightarrow> r \<in> set rs \<and> (\<forall>r' \<in> set rs. executed_at r' \<le> executed_at r)"
proof (induction rs arbitrary: r)
  case Nil
  then show ?case by simp
next
  case (Cons a rs)
  show ?case
  proof (cases "latestRow rs")
    case None
    then have "rs = []" by (cases rs) (auto split: option.splits if_splits)
    with Cons.prems show ?thesis by simp
  next
    case (Some b)
    from Cons.IH [OF Some] Cons.prems Some show ?thesis
      by (auto split: if_splits)
  qed
qed

lemma latestRow_nonempty: "rs \<noteq> [] \<Longrightarrow> latestRow rs \<noteq> None"
  by (cases rs) (auto split: option.splits if_splits)

lemma Rollback_error:
  assumes "Rollback w s = (Some e, s')"
  shows "table s' = table s \<and> schema s' = schema s"
  using assms
  by (auto simp: Rollback_def txExec_def txCommit_def Let_def
      split: if_splits option.splits sum.splits prod.splits)

lemma Rollback_success:
  assumes "Rollback w s = (None, s')" and "table s = Some t" and "rows t \<noteq> []"
  shows "\<exists>r. latestRow (rows t) = Some r \<and> table s' = Some (deleteVersion t (version r))"
  using assms latestRow_nonempty [of "rows t"]
  by (auto simp: Rollback_def txExec_def txCommit_def Let_def
      split: if_splits option.splits sum.splits prod.splits)

lemma Rollback_down_fails:
  assumes "\<not> conn_fails w (calls s)" and "\<not> conn_fails w (Suc (calls s))"
    and "table s = Some t" and "has_module t" and "has_file_path t"
    and "latestRow (rows t) = Some r"
    and "description r = Some d" and "module r = Some mo" and "file_path r = Some p"
    and "parseMigrationFile w p = Inr m"
    and "TrimSpace (DownSQL m) \<noteq> []"
    and "run_sql w (DownSQL m) (schema s) = None"
  shows "Rollback w s =
     (Some (Errorf ''failed to execute rollback SQL''
              (if conn_fails w (Suc (Suc (calls s))) then DriverError else SqlError (DownSQL m))),
      s\<lparr>calls := calls s + 3, issued := issued s @ [DownSQL m]\<rparr>)"
  using assms
  by (simp add: Rollback_def txExec_def Let_def tick_def)

text \<open>Claim C4. Whenever \<open>Rollback\<close> returns an error, the ledger and the schema are as they
  were before. And when the reverse script of the latest row is not blank and the database
  refuses it, \<open>Rollback\<close> does return an error, \<open>failed to execute rollback SQL\<close>, and
  the state differs only in the calls made and the script sent.\<close>

theorem failed_down_keeps_ledger:
  "(\<forall>e. Rollback w s = (Some e, s') \<longrightarrow> table s' = table s \<and> schema s' = schema s) \<and>
   (\<not> conn_fails w (calls s) \<and> \<not> conn_fails w (Suc (calls s)) \<and>
    table s = Some t \<and> has_module t \<and> has_file_path t \<and> latestRow (rows t) = Some r \<and>
    description r = Some d \<and> module r = Some mo \<and> file_path r = Some p \<and>
    parseMigrationFile w p = Inr m \<and> TrimSpace (DownSQL m) \<noteq> [] \<and>
    run_sql w (DownSQL m) (schema s) = None \<longrightarrow>
      (\<exists>e. Rollback w s =
         (Some (Errorf ''failed to execute rollback SQL'' e),
          s\<lparr>calls := calls s + 3, issued := issued s @ [DownSQL m]\<rparr>)))"
proof -
  have a: "\<forall>e. Rollback w s = (Some e, s') \<longrightarrow> table s' = table s \<and> schema s' = schema s"
    using Rollback_error [of w s _ s'] by blast
  have b: "\<not> conn_fails w (calls s) \<and> \<not> conn_fails w (Suc (calls s)) \<and>
    table s = Some t \<and> has_module t \<and> has_file_path t \<and> latestRow (rows t) = Some r \<and>
    description r = Some d \<and> module r = Some mo \<and> file_path r = Some p \<and>
    parseMigrationFile w p = Inr m \<and> TrimSpace (DownSQL m) \<noteq> [] \<and>
    run_sql w (DownSQL m) (schema s) = None \<longrightarrow>
      (\<exists>e. Rollback w s =
         (Some (Errorf ''failed to execute rollback SQL'' e),
          s\<lparr>calls := calls s + 3, issued := issued s @ [DownSQL m]\<rparr>))"
    using Rollback_down_fails [of w s t r d mo p m] by blast
  from a b show ?thesis by (rule conjI)
qed

text \<open>Claim C5. A \<open>Rollback\<close> that returns no error on a ledger with rows removes the version
  of a row whose \<open>executed_at\<close> is the greatest; and when one row was executed after
  all the others, it is the version of that row, whatever the version numbers are.\<close>

theorem rollback_removes_latest_executed:
  assumes "Rollback w s = (None, s')" and "table s = Some t" and "rows t \<noteq> []"
  shows "(\<exists>r \<in> set (rows t). (\<forall>r' \<in> set (rows t). executed_at r' \<le> executed_at r) \<and>
            table s' = Some (deleteVersion t (version r))) \<and>
         (\<forall>r \<in> set (rows t).
            (\<forall>r' \<in> set (rows t). r' \<noteq> r \<longrightarrow> executed_at r' < executed_at r) \<longrightarrow>
            table s' = Some (deleteVersion t (version r)))"
proof -
  from Rollback_success [OF assms] obtain r0 where
    r0: "latestRow (rows t) = Some r0" "table s' = Some (deleteVersion t (version r0))" by blast
  note mx = latestRow_max [OF r0(1)]
  have "\<forall>r \<in> set (rows t).
            (\<forall>r' \<in> set (rows t). r' \<noteq> r \<longrightarrow> executed_at r' < executed_at r) \<longrightarrow> r = r0"
  proof (intro ballI impI)
    fix r assume r: "r \<in> set (rows t)"
      and gt: "\<forall>r' \<in> set (rows t). r' \<noteq> r \<longrightarrow> executed_at r' < executed_at r"
    show "r = r0"
    proof (rule ccontr)
      assume "r \<noteq> r0"
      with gt mx have "executed_at r0 < executed_at r" by auto
      moreover from mx r have "executed_at r \<le> executed_at r0" by auto
      ultimately show False by simp
    qed
  qed
  with r0 mx show ?thesis by blast
qed

lemma executeMigration_apply:
  assumes "\<forall>k. \<not> conn_fails w k"
    and "table s = Some t" and "has_module t" and "has_file_path t"
    and "Version m \<notin> set (applied s)"
    and "\<not> rejects_row w (newRow m (now w (Suc (calls s))))"
    and "TrimSpace (UpSQL m) \<noteq> []" and "run_sql w (UpSQL m) (schema s) = Some view"
  shows "executeMigration w m s =
     (None, s\<lparr>schema := view,
              table := Some (t\<lparr>rows := rows t @ [newRow m (now w (Suc (calls s)))]\<rparr>),
              calls := calls s + 5, issued := issued s @ [UpSQL m],
              logged := logged s @ [LogExecuted (Version m) (Description m) (Module m)]\<rparr>)"
  using assms
  by (auto simp add: executeMigration_def countVersion_def insertRow_def txExec_def txCommit_def
      Let_def tick_def logf_def applied_def newRow_def filter_empty_conv image_iff)

lemma executeMigration_apply_blank:
  assumes "\<forall>k. \<not> conn_fails w k"
    and "table s = Some t" and "has_module t" and "has_file_path t"
    and "Version m \<notin> set (applied s)"
    and "\<not> rejects_row w (newRow m (now w (Suc (calls s))))"
    and "TrimSpace (UpSQL m) = []"
  shows "executeMigration w m s =
     (None, s\<lparr>table := Some (t\<lparr>rows := rows t @ [newRow m (now w (Suc (calls s)))]\<rparr>),
              calls := calls s + 4,
              logged := logged s @ [LogExecuted (Version m) (Description m) (Module m)]\<rparr>)"
  using assms
  by (auto simp add: executeMigration_def countVersion_def insertRow_def txExec_def txCommit_def
      Let_def tick_def logf_def applied_def newRow_def filter_empty_conv image_iff)

lemma executeMigration_sql_fails:
  assumes "\<forall>k. \<not> conn_fails w k"
    and "table s = Some t"
    and "Version m \<notin> set (applied s)"
    and "TrimSpace (UpSQL m) \<noteq> []" and "run_sql w (UpSQL m) (schema s) = None"
  shows "executeMigration w m s =
     (Some (Errorf ''failed to execute migration SQL'' (SqlError (UpSQL m))),
      s\<lparr>calls := calls s + 3, issued := issued s @ [UpSQL m]\<rparr>)"
  using assms
  by (auto simp add: executeMigration_def countVersion_def txExec_def
      Let_def tick_def applied_def filter_empty_conv image_iff)





text \<open>Claim C9, as the code has it. Two files with the same version number are not
  detected, and the loop does not stop for them. The order of the run compares the
  integers that \<open>strconv.Atoi\<close> gives for the versions; the ledger is asked for the version
  as it is written. So, once the loop has gone through a migration: a later migration
  with the same version string is skipped as already executed, without error, and nothing
  of it reaches the database; a later migration with the same version number whose
  version string is not in the ledger (the strings differ, as \<open>1\<close> and \<open>001\<close>) is executed
  and recorded as any other, when no call fails and the database refuses neither its
  script nor its row.\<close>

theorem version_collision_is_not_detected:
  assumes "executeAll w ms s = (None, s1)" and "m1 \<in> set ms"
  shows "(Version m2 = Version m1 \<and> \<not> conn_fails w (calls s1) \<longrightarrow>
            executeAll w (ms @ [m2]) s =
              (None, logf (LogSkipping (Version m2) (Module m2)) (tick s1))) \<and>
         (fst (Atoi (Version m2)) = fst (Atoi (Version m1)) \<and>
          Version m2 \<notin> set (applied s1) \<and>
          (\<forall>k. \<not> conn_fails w k) \<and> (\<forall>row. \<not> rejects_row w row) \<and>
          (\<forall>sch. run_sql w (UpSQL m2) sch \<noteq> None) \<and>
          (\<exists>t. table s1 = Some t \<and> has_module t \<and> has_file_path t) \<longrightarrow>
            (\<exists>s2. executeAll w (ms @ [m2]) s = (None, s2) \<and>
                  applied s2 = applied s1 @ [Version m2] \<and>
                  issued s2 =
                    issued s1 @ (if TrimSpace (UpSQL m2) = [] then [] else [UpSQL m2]) \<and>
                  logged s2 =
                    logged s1 @ [LogExecuted (Version m2) (Description m2) (Module m2)]))"
proof -
  have a: "Version m2 = Version m1 \<and> \<not> conn_fails w (calls s1) \<longrightarrow>
            executeAll w (ms @ [m2]) s =
              (None, logf (LogSkipping (Version m2) (Module m2)) (tick s1))"
  proof
    assume h: "Version m2 = Version m1 \<and> \<not> conn_fails w (calls s1)"
    from executeAll_success_applied [OF assms(1)] assms(2) h
    have "Version m2 \<in> set (applied s1)" by auto
    from executeMigration_skip [OF _ this] h assms(1) show "executeAll w (ms @ [m2]) s =
              (None, logf (LogSkipping (Version m2) (Module m2)) (tick s1))"
      by (simp add: executeAll_append)
  qed
  have b: "fst (Atoi (Version m2)) = fst (Atoi (Version m1)) \<and>
          Version m2 \<notin> set (applied s1) \<and>
          (\<forall>k. \<not> conn_fails w k) \<and> (\<forall>row. \<not> rejects_row w row) \<and>
          (\<forall>sch. run_sql w (UpSQL m2) sch \<noteq> None) \<and>
          (\<exists>t. table s1 = Some t \<and> has_module t \<and> has_file_path t) \<longrightarrow>
            (\<exists>s2. executeAll w (ms @ [m2]) s = (None, s2) \<and>
                  applied s2 = applied s1 @ [Version m2] \<and>
                  issued s2 =
                    issued s1 @ (if TrimSpace (UpSQL m2) = [] then [] else [UpSQL m2]) \<and>
                  logged s2 =
                    logged s1 @ [LogExecuted (Version m2) (Description m2) (Module m2)])"
  proof
    assume h: "fst (Atoi (Version m2)) = fst (Atoi (Version m1)) \<and>
          Version m2 \<notin> set (applied s1) \<and>
          (\<forall>k. \<not> conn_fails w k) \<and> (\<forall>row. \<not> rejects_row w row) \<and>
          (\<forall>sch. run_sql w (UpSQL m2) sch \<noteq> None) \<and>
          (\<exists>t. table s1 = Some t \<and> has_module t \<and> has_file_path t)"
    then obtain t where t: "table s1 = Some t" "has_module t" "has_file_path t" by blast
    from h have nf: "\<forall>k. \<not> conn_fails w k" and new: "Version m2 \<notin> set (applied s1)"
      and nr: "\<not> rejects_row w (newRow m2 (now w (Suc (calls s1))))" by simp_all
    have "\<exists>s2. executeMigration w m2 s1 = (None, s2) \<and>
                  applied s2 = applied s1 @ [Version m2] \<and>
                  issued s2 =
                    issued s1 @ (if TrimSpace (UpSQL m2) = [] then [] else [UpSQL m2]) \<and>
                  logged s2 =
                    logged s1 @ [LogExecuted (Version m2) (Description m2) (Module m2)]"
    proof (cases "TrimSpace (UpSQL m2) = []")
      case True
      from executeMigration_apply_blank [OF nf t new nr True] t True show ?thesis
        by (simp add: applied_def newRow_def)
    next
      case False
      from h have "run_sql w (UpSQL m2) (schema s1) \<noteq> None" by blast
      then obtain view where v: "run_sql w (UpSQL m2) (schema s1) = Some view" by blast
      from executeMigration_apply [OF nf t new nr False v] t False show ?thesis
        by (simp add: applied_def newRow_def)
    qed
    with assms(1) show "\<exists>s2. executeAll w (ms @ [m2]) s = (None, s2) \<and>
                  applied s2 = applied s1 @ [Version m2] \<and>
                  issued s2 =
                    issued s1 @ (if TrimSpace (UpSQL m2) = [] then [] else [UpSQL m2]) \<and>
                  logged s2 =
                    logged s1 @ [LogExecuted (Version m2) (Description m2) (Module m2)]"
      by (auto simp: executeAll_append)
  qed
  from a b show ?thesis by (rule conjI)
qed


lemma mset_insertBackwards: "mset (insertBackwards lt x ys) = add_mset x (mset ys)"
  by (induction ys) simp_all

lemma mset_insertion_loop:
  "mset (foldl (\<lambda>front x. insertBackwards lt x front) front xs) = mset front + mset xs"
  by (induction xs arbitrary: front) (simp_all add: mset_insertBackwards)

lemma mset_insertionSort: "mset (insertionSort lt xs) = mset xs"
  by (simp add: insertionSort_def mset_insertion_loop)

lemma set_insertBackwards: "set (insertBackwards lt x ys) = insert x (set ys)"
  by (induction ys) auto

lemma descending_insertBackwards:
  fixes f :: "'a \<Rightarrow> int"
  assumes "sorted_wrt (\<lambda>a b. f b \<le> f a) ys"
  shows "sorted_wrt (\<lambda>a b. f b \<le> f a) (insertBackwards (\<lambda>a b. f a < f b) x ys)"
  using assms by (induction ys) (auto simp: set_insertBackwards)

lemma descending_insertion_loop:
  fixes f :: "'a \<Rightarrow> int"
  assumes "sorted_wrt (\<lambda>a b. f b \<le> f a) front"
  shows "sorted_wrt (\<lambda>a b. f b \<le> f a)
           (foldl (\<lambda>front x. insertBackwards (\<lambda>a b. f a < f b) x front) front xs)"
  using assms by (induction xs arbitrary: front) (simp_all add: descending_insertBackwards)

lemma insertionSort_sortsBy: "sortsBy insertionSort versionLess"
proof -
  let ?f = "\<lambda>m. fst (Atoi (Version m))"
  have lt: "versionLess = (\<lambda>a b. ?f a < ?f b)" by (simp add: versionLess_def fun_eq_iff)
  have "sorted_wrt (\<lambda>a b. \<not> versionLess b a) (insertionSort versionLess xs)" for xs
  proof -
    have "sorted_wrt (\<lambda>a b. ?f b \<le> ?f a)
           (foldl (\<lambda>front x. insertBackwards (\<lambda>a b. ?f a < ?f b) x front) [] xs)"
      by (rule descending_insertion_loop) simp
    then have "sorted_wrt (\<lambda>a b. ?f a \<le> ?f b) (insertionSort versionLess xs)"
      unfolding insertionSort_def lt by (simp add: sorted_wrt_rev)
    moreover have "(\<lambda>a b. \<not> versionLess b a) = (\<lambda>a b. ?f a \<le> ?f b)"
      by (auto simp: lt fun_eq_iff)
    ultimately show ?thesis by simp
  qed
  then show ?thesis by (simp add: sortsBy_def mset_insertionSort)
qed

lemmas parse_eval = parseMigrationFile_def Base_def Dir_def Clean_def SplitN2_def TrimSuffix_def
  HasSuffix_def ReplaceAll_def splitMigrationContent_def splitLines_def splitLine_def
  split_init_def TrimSpace_def TrimLeftSpace_def TrimRightSpace_def spaceEncodings_def
  HasPrefix_def Let_def demo_def

lemma parse_003: "parseMigrationFile demo ''database/migrations/cross_module/003_seed.sql'' = Inr m003"
  by (simp add: parse_eval m003_def)

lemma parse_001: "parseMigrationFile demo ''database/migrations/sensor_data/001_schema.sql'' = Inr m001"
  by (simp add: parse_eval m001_def)

lemma parse_002: "parseMigrationFile demo ''database/migrations/user_management/002_users.sql'' = Inr m002"
  by (simp add: parse_eval m002_def)

lemma parse_001_bad: "parseMigrationFile demo ''database/migrations/cross_module/001_bad.sql'' = Inr m001_bad"
  by (simp add: parse_eval m001_bad_def)

lemma parse_002_bad: "parseMigrationFile demo ''database/migrations/user_management/002_bad.sql'' = Inr m002_bad"
  by (simp add: parse_eval m002_bad_def)

lemma parse_001_seed: "parseMigrationFile demo ''database/migrations/cross_module/001_seed.sql'' = Inr m001_seed"
  by (simp add: parse_eval m001_seed_def)


lemma executeMigration_eval:
  assumes "\<forall>k. \<not> conn_fails w k" and "table s \<noteq> None"
    and "has_module (the (table s))" and "has_file_path (the (table s))"
    and "Version m \<notin> set (applied s)"
    and "\<not> rejects_row w (newRow m (now w (Suc (calls s))))"
    and "TrimSpace (UpSQL m) \<noteq> []"
  shows "executeMigration w m s =
     (case run_sql w (UpSQL m) (schema s) of
        None \<Rightarrow> (Some (Errorf ''failed to execute migration SQL'' (SqlError (UpSQL m))),
                  s\<lparr>calls := calls s + 3, issued := issued s @ [UpSQL m]\<rparr>)
      | Some view \<Rightarrow>
          (None, s\<lparr>schema := view,
              table := Some ((the (table s))\<lparr>rows := rows (the (table s)) @
                                [newRow m (now w (Suc (calls s)))]\<rparr>),
              calls := calls s + 5, issued := issued s @ [UpSQL m],
              logged := logged s @ [LogExecuted (Version m) (Description m) (Module m)]\<rparr>))"
proof -
  from assms(2) obtain t where t: "table s = Some t" by auto
  show ?thesis
  proof (cases "run_sql w (UpSQL m) (schema s)")
    case None
    from executeMigration_sql_fails [OF assms(1) t assms(5,7) None] None show ?thesis by simp
  next
    case (Some view)
    from executeMigration_apply [OF assms(1) t _ _ assms(5,6,7) Some] assms(3,4) t Some
    show ?thesis by simp
  qed
qed

lemma create_fresh:
  "createMigrationsTable demo (fresh entries) =
     (None, (fresh entries)\<lparr>table := Some (current_table []), calls := 2\<rparr>)"
  by (simp add: createMigrationsTable_def execOnTable_def migrateMigrationsTable_def
      createTableIfNotExists_def demo_def fresh_def tick_def Let_def current_table_def)

lemma walk_order: "walkDir demo order_walk [] = Inr [m003, m001, m002]"
  by (simp add: order_walk_def HasSuffix_def parse_003 parse_001 parse_002)

lemma sort_order: "insertionSort versionLess [m003, m001, m002] = [m001, m002, m003]"
  by (simp add: insertionSort_def versionLess_def Atoi_def ParseUint_def Let_def
      m001_def m002_def m003_def)

lemmas exec_eval = executeMigration_eval executeMigration_skip applied_def newRow_def
  TrimSpace_def TrimLeftSpace_def TrimRightSpace_def spaceEncodings_def HasPrefix_def
  current_table_def tick_def logf_def

lemma exec_order:
  "executeAll demo [m001, m002, m003]
     ((fresh order_walk)\<lparr>table := Some (current_table []), calls := 2\<rparr>) =
   (None, order_final\<lparr>logged := butlast (logged order_final)\<rparr>)"
  by (simp add: exec_eval demo_def fresh_def m001_def m002_def m003_def order_final_def)

lemma run_order: "RunMigrations demo (fresh order_walk) = (None, order_final)"
proof -
  have l: "loadMigrationsFromFiles demo ((fresh order_walk)\<lparr>table := Some (current_table []), calls := 2\<rparr>)
     = (Inr [m003, m001, m002], (fresh order_walk)\<lparr>table := Some (current_table []), calls := 2\<rparr>)"
    by (rule loadMigrationsFromFiles_present) (simp_all add: fresh_def walk_order)
  have s: "sort_Slice demo = insertionSort" by (simp add: demo_def)
  show ?thesis
    by (simp add: RunMigrations_def create_fresh l s sort_order exec_order logf_def order_final_def
        del: executeAll.simps)
qed

lemma create_current:
  assumes "\<forall>k. \<not> conn_fails w k" and "table s \<noteq> None" and "has_module (the (table s))"
  shows "createMigrationsTable w s = (None, s\<lparr>calls := calls s + 2\<rparr>)"
  using assms
  by (auto simp: createMigrationsTable_def execOnTable_def migrateMigrationsTable_def
      createTableIfNotExists_def tick_def Let_def)

lemma Rollback_apply:
  assumes "\<forall>k. \<not> conn_fails w k"
    and "table s = Some t" and "has_module t" and "has_file_path t"
    and "latestRow (rows t) = Some r"
    and "description r = Some d" and "module r = Some mo" and "file_path r = Some p"
    and "parseMigrationFile w p = Inr m"
    and "TrimSpace (DownSQL m) \<noteq> []"
    and "run_sql w (DownSQL m) (schema s) = Some view"
  shows "Rollback w s =
     (None, s\<lparr>schema := view, table := Some (deleteVersion t (version r)),
              calls := calls s + 5, issued := issued s @ [DownSQL m],
              logged := logged s @ [LogRolledBack (version r) d mo]\<rparr>)"
  using assms
  by (simp add: Rollback_def txExec_def txCommit_def Let_def tick_def logf_def)

lemma exec_fail:
  "executeAll demo [m001, m002_bad, m003]
     ((fresh [])\<lparr>table := Some (current_table []), calls := 2\<rparr>) =
   (Some (Errorf ''failed to execute migration 002''
            (Errorf ''failed to execute migration SQL'' (SqlError ''FAIL 2;''))), fail_final)"
  by (simp add: exec_eval demo_def fresh_def m001_def m002_bad_def m003_def fail_final_def)

lemma walk_late: "walkDir demo late_walk [] = Inr [m001_bad, m002]"
  by (simp add: late_walk_def HasSuffix_def parse_001_bad parse_002)

lemma sort_late: "insertionSort versionLess [m001_bad, m002] = [m001_bad, m002]"
  by (simp add: insertionSort_def versionLess_def Atoi_def ParseUint_def Let_def
      m001_bad_def m002_def)

lemma exec_late:
  "executeAll demo [m001_bad, m002] (late_start\<lparr>calls := 2\<rparr>) =
   (Some (Errorf ''failed to execute migration 001''
            (Errorf ''failed to execute migration SQL'' (SqlError ''FAIL 1;''))),
    late_start\<lparr>calls := 5, issued := [''FAIL 1;'']\<rparr>)"
  by (simp add: exec_eval demo_def late_start_def m001_bad_def m002_def)

lemma run_late:
  "RunMigrations demo late_start =
   (Some (Errorf ''failed to execute migration 001''
            (Errorf ''failed to execute migration SQL'' (SqlError ''FAIL 1;''))),
    late_start\<lparr>calls := 5, issued := [''FAIL 1;'']\<rparr>)"
proof -
  have c: "createMigrationsTable demo late_start = (None, late_start\<lparr>calls := 2\<rparr>)"
    using create_current [of demo late_start]
    by (simp add: demo_def late_start_def current_table_def)
  have l: "loadMigrationsFromFiles demo (late_start\<lparr>calls := 2\<rparr>)
     = (Inr [m001_bad, m002], late_start\<lparr>calls := 2\<rparr>)"
    by (rule loadMigrationsFromFiles_present) (simp_all add: late_start_def walk_late)
  have s: "sort_Slice demo = insertionSort" by (simp add: demo_def)
  show ?thesis
    by (simp add: RunMigrations_def c l s sort_late exec_late del: executeAll.simps)
qed




lemma walk_twice: "walkDir demo twice_walk [] = Inr [m001_seed, m001]"
  by (simp add: twice_walk_def HasSuffix_def parse_001_seed parse_001)

lemma sort_twice: "insertionSort versionLess [m001_seed, m001] = [m001_seed, m001]"
  by (simp add: insertionSort_def versionLess_def Atoi_def ParseUint_def Let_def
      m001_seed_def m001_def)

lemma exec_seed:
  "executeAll demo [m001_seed] ((fresh twice_walk)\<lparr>table := Some (current_table []), calls := 2\<rparr>) =
   (None, twice_final\<lparr>calls := 7, logged := [LogExecuted ''001'' ''seed'' ''cross_module'']\<rparr>)"
  by (simp add: exec_eval demo_def fresh_def m001_seed_def twice_final_def)

lemma exec_twice:
  "executeAll demo [m001_seed, m001] ((fresh twice_walk)\<lparr>table := Some (current_table []), calls := 2\<rparr>) =
   (None, twice_final\<lparr>logged := butlast (logged twice_final)\<rparr>)"
  by (simp add: exec_eval demo_def fresh_def m001_seed_def m001_def twice_final_def)

lemma run_twice: "RunMigrations demo (fresh twice_walk) = (None, twice_final)"
proof -
  have l: "loadMigrationsFromFiles demo ((fresh twice_walk)\<lparr>table := Some (current_table []), calls := 2\<rparr>)
     = (Inr [m001_seed, m001], (fresh twice_walk)\<lparr>table := Some (current_table []), calls := 2\<rparr>)"
    by (rule loadMigrationsFromFiles_present) (simp_all add: fresh_def walk_twice)
  have s: "sort_Slice demo = insertionSort" by (simp add: demo_def)
  show ?thesis
    by (simp add: RunMigrations_def create_fresh l s sort_twice exec_twice logf_def
        twice_final_def del: executeAll.simps)
qed

lemma execOnTable_applied:
  assumes "execOnTable w q f s = (r, s')"
    and "\<And>tbl t'. f tbl = Some t' \<Longrightarrow>
           map version (rows t') = (case tbl of None \<Rightarrow> [] | Some t \<Rightarrow> map version (rows t))"
  shows "applied s' = applied s"
  using assms(1) assms(2) [of "table s"]
  by (auto simp: execOnTable_def applied_def split: if_splits option.splits)

lemma migrateMigrationsTable_applied:
  assumes "migrateMigrationsTable w s = (r, s')"
  shows "applied s' = applied s"
proof (cases "conn_fails w (calls s) \<or> (case table s of None \<Rightarrow> False | Some t \<Rightarrow> has_module t)")
  case True
  with assms show ?thesis
    by (auto simp: migrateMigrationsTable_def Let_def applied_def split: if_splits)
next
  case False
  obtain r2 s2 where a: "execOnTable w ''ALTER TABLE public.migrations ADD COLUMN module VARCHAR(100)''
      addModuleColumn (logf LogMigratingTable (tick s)) = (r2, s2)"
    by (metis surj_pair)
  obtain r3 s3 where b: "execOnTable w ''ALTER TABLE public.migrations ADD COLUMN file_path VARCHAR(500)''
      addFilePathColumn s2 = (r3, s3)"
    by (metis surj_pair)
  obtain r4 s4 where c: "execOnTable w
      ''UPDATE public.migrations SET module = 'legacy' WHERE module IS NULL''
      setLegacyModule s3 = (r4, s4)"
    by (metis surj_pair)
  have "applied s2 = applied (logf LogMigratingTable (tick s))"
    by (rule execOnTable_applied [OF a])
      (auto simp: addModuleColumn_def comp_def split: option.splits if_splits)
  then have a': "applied s2 = applied s" by (simp add: applied_def)
  have b': "applied s3 = applied s2"
    by (rule execOnTable_applied [OF b])
      (auto simp: addFilePathColumn_def comp_def split: option.splits if_splits)
  have c': "applied s4 = applied s3"
    by (rule execOnTable_applied [OF c])
      (auto simp: setLegacyModule_def comp_def split: option.splits if_splits)
  from a' b' c' assms False a b c show ?thesis
    by (auto simp: migrateMigrationsTable_def Let_def applied_def split: if_splits option.splits)
qed

lemma createMigrationsTable_applied:
  assumes "createMigrationsTable w s = (r, s')"
  shows "applied s' = applied s"
proof -
  obtain r1 s1 where a: "execOnTable w ''CREATE TABLE IF NOT EXISTS public.migrations''
      createTableIfNotExists s = (r1, s1)"
    by (metis surj_pair)
  obtain r2 s2 where b: "migrateMigrationsTable w s1 = (r2, s2)" by (metis surj_pair)
  have a': "applied s1 = applied s"
    by (rule execOnTable_applied [OF a])
      (auto simp: createTableIfNotExists_def split: option.splits)
  from a' migrateMigrationsTable_applied [OF b] assms a b show ?thesis
    by (auto simp: createMigrationsTable_def split: option.splits)
qed

lemma RunMigrations_prefix:
  assumes run: "RunMigrations w s = (r, s')"
    and corpus: "fst (loadMigrationsFromFiles w s) = Inr ms"
    and pre: "prefixApplied (map Version (sort_Slice w versionLess ms)) (applied s)"
  shows "prefixApplied (map Version (sort_Slice w versionLess ms)) (applied s')"
proof -
  let ?sorted = "sort_Slice w versionLess ms"
  obtain r1 s1 where c: "createMigrationsTable w s = (r1, s1)" by (metis surj_pair)
  note cf = createMigrationsTable_frame [OF c]
  note ca = createMigrationsTable_applied [OF c]
  show ?thesis
  proof (cases r1)
    case (Some e)
    with run c have "s' = s1" by (auto simp: RunMigrations_def)
    with ca pre show ?thesis by simp
  next
    case None
    obtain r2 s2 where l: "loadMigrationsFromFiles w s1 = (r2, s2)" by (metis surj_pair)
    from loadMigrationsFromFiles_tree [of s1 s w] cf corpus l have r2: "r2 = Inr ms" by simp
    from loadMigrationsFromFiles_frame [OF l] ca have a2: "applied s2 = applied s"
      by (simp add: applied_def)
    obtain r3 s3 where x: "executeAll w ?sorted s2 = (r3, s3)" by (metis surj_pair)
    from executeAll_prefix [OF x] pre a2
    have "prefixApplied (map Version ?sorted) (applied s3)" by simp
    moreover from run c None l r2 x have "applied s' = applied s3"
      by (auto simp: RunMigrations_def applied_def split: option.splits)
    ultimately show ?thesis by simp
  qed
qed

lemma rollback_down_fails:
  "Rollback demo down_fails_start =
     (Some (Errorf ''failed to execute rollback SQL'' (SqlError ''FAIL 2;'')),
      down_fails_start\<lparr>calls := 3, issued := [''FAIL 2;'']\<rparr>)"
  using Rollback_down_fails [of demo down_fails_start "current_table [newRow m001 103, newRow m002 108]"
      "newRow m002 108" "''users''" "''user_management''"
      "''database/migrations/user_management/002_users.sql''" m002]
  by (simp add: parse_002)
    (simp add: demo_def down_fails_start_def current_table_def newRow_def m001_def m002_def
      TrimSpace_def TrimLeftSpace_def TrimRightSpace_def spaceEncodings_def HasPrefix_def)

lemma rollback_out_of_order:
  "Rollback demo out_of_order_start =
     (None, out_of_order_start\<lparr>schema := [''CREATE 2;'', ''CREATE 1;'', ''DROP 1;''],
              table := Some (current_table [newRow m002 105]),
              calls := 5, issued := [''DROP 1;''],
              logged := [LogRolledBack ''001'' ''schema'' ''sensor_data'']\<rparr>)"
  using Rollback_apply [of demo out_of_order_start "current_table [newRow m002 105, newRow m001 109]"
      "newRow m001 109" "''schema''" "''sensor_data''"
      "''database/migrations/sensor_data/001_schema.sql''" m001
      "[''CREATE 2;'', ''CREATE 1;'', ''DROP 1;'']"]
  by (simp add: parse_001)
    (simp add: demo_def out_of_order_start_def current_table_def newRow_def m001_def m002_def
      deleteVersion_def
      TrimSpace_def TrimLeftSpace_def TrimRightSpace_def spaceEncodings_def HasPrefix_def)

text \<open>Claim C2, as the code has it. When the loop over the sorted migrations returns an error,
  it is the error of one migration \<open>m\<close>: the migrations before it went through, the table
  and the schema are those from before \<open>m\<close> (its transaction is rolled back; at most its
  script was sent), and no migration after \<open>m\<close> is attempted. And a run keeps the
  prefix: if the applied versions are a prefix of the sorted corpus before the loop (before
  \<open>RunMigrations\<close>), they are one after it, whether it failed or not.\<close>

theorem failed_migration_keeps_prefix:
  "(executeAll w ms s = (Some e, s') \<longrightarrow>
      (\<exists>pre m post e1 s1.
         ms = pre @ m # post \<and> executeAll w pre s = (None, s1) \<and>
         executeMigration w m s1 = (Some e1, s') \<and>
         e = Errorf (''failed to execute migration '' @ Version m) e1 \<and>
         table s' = table s1 \<and> schema s' = schema s1 \<and> logged s' = logged s1 \<and>
         (issued s' = issued s1 \<or> issued s' = issued s1 @ [UpSQL m]))) \<and>
   (executeAll w ms s = (r, s') \<and> prefixApplied (map Version ms) (applied s) \<longrightarrow>
      prefixApplied (map Version ms) (applied s')) \<and>
   (RunMigrations w s = (r, s') \<and> fst (loadMigrationsFromFiles w s) = Inr corpus \<and>
    prefixApplied (map Version (sort_Slice w versionLess corpus)) (applied s) \<longrightarrow>
      prefixApplied (map Version (sort_Slice w versionLess corpus)) (applied s'))"
proof -
  have a: "executeAll w ms s = (Some e, s') \<longrightarrow>
      (\<exists>pre m post e1 s1.
         ms = pre @ m # post \<and> executeAll w pre s = (None, s1) \<and>
         executeMigration w m s1 = (Some e1, s') \<and>
         e = Errorf (''failed to execute migration '' @ Version m) e1 \<and>
         table s' = table s1 \<and> schema s' = schema s1 \<and> logged s' = logged s1 \<and>
         (issued s' = issued s1 \<or> issued s' = issued s1 @ [UpSQL m]))"
  proof
    assume "executeAll w ms s = (Some e, s')"
    from executeAll_error [OF this] obtain pre m post e1 s1 where
      x: "ms = pre @ m # post" "executeAll w pre s = (None, s1)"
         "executeMigration w m s1 = (Some e1, s')"
         "e = Errorf (''failed to execute migration '' @ Version m) e1" by blast
    from executeMigration_error [OF x(3)] executeMigration_issued [OF x(3)] x
    show "\<exists>pre m post e1 s1.
         ms = pre @ m # post \<and> executeAll w pre s = (None, s1) \<and>
         executeMigration w m s1 = (Some e1, s') \<and>
         e = Errorf (''failed to execute migration '' @ Version m) e1 \<and>
         table s' = table s1 \<and> schema s' = schema s1 \<and> logged s' = logged s1 \<and>
         (issued s' = issued s1 \<or> issued s' = issued s1 @ [UpSQL m])"
      by blast
  qed
  have b: "executeAll w ms s = (r, s') \<and> prefixApplied (map Version ms) (applied s) \<longrightarrow>
      prefixApplied (map Version ms) (applied s')"
    using executeAll_prefix [of w ms s r s'] by blast
  have c: "RunMigrations w s = (r, s') \<and> fst (loadMigrationsFromFiles w s) = Inr corpus \<and>
    prefixApplied (map Version (sort_Slice w versionLess corpus)) (applied s) \<longrightarrow>
      prefixApplied (map Version (sort_Slice w versionLess corpus)) (applied s')"
    using RunMigrations_prefix [of w s r s' corpus] by blast
  from a b c show ?thesis by blast
qed

lemma load_order: "fst (loadMigrationsFromFiles demo (fresh order_walk)) = Inr [m003, m001, m002]"
  using loadMigrationsFromFiles_present [of "fresh order_walk" demo "[m003, m001, m002]"]
  by (simp add: fresh_def walk_order)

lemma load_late: "fst (loadMigrationsFromFiles demo late_start) = Inr [m001_bad, m002]"
  using loadMigrationsFromFiles_present [of late_start demo "[m001_bad, m002]"]
  by (simp add: late_start_def walk_late)

lemma load_twice: "fst (loadMigrationsFromFiles demo (fresh twice_walk)) = Inr [m001_seed, m001]"
  using loadMigrationsFromFiles_present [of "fresh twice_walk" demo "[m001_seed, m001]"]
  by (simp add: fresh_def walk_twice)

lemma demo_sort: "sort_Slice demo = insertionSort"
  by (simp add: demo_def)

lemma demo_conn: "conn_fails demo k = False"
  by (simp add: demo_def)

lemma versions [simp]:
  "Version m001 = ''001''" "Version m002 = ''002''" "Version m003 = ''003''"
  "Version m001_bad = ''001''" "Version m002_bad = ''002''" "Version m001_seed = ''001''"
  "Version m_abc = ''abc''"
  by (simp_all add: m001_def m002_def m003_def m001_bad_def m002_bad_def m001_seed_def m_abc_def)

lemma modules [simp]:
  "Module m001 = ''sensor_data''" "Module m001_seed = ''cross_module''"
  by (simp_all add: m001_def m001_seed_def)

lemma newRow_fields [simp]:
  "version (newRow m t) = Version m" "executed_at (newRow m t) = t"
  by (simp_all add: newRow_def)

lemma parse_1_seed: "parseMigrationFile demo ''database/migrations/cross_module/1_seed.sql'' = Inr m1_seed"
  by (simp add: parse_eval m1_seed_def)

lemma walk_pair: "walkDir demo pair_walk [] = Inr [m1_seed, m001]"
  by (simp add: pair_walk_def HasSuffix_def parse_1_seed parse_001)

lemma sort_pair: "insertionSort versionLess [m1_seed, m001] = [m1_seed, m001]"
  by (simp add: insertionSort_def versionLess_def Atoi_def ParseUint_def Let_def
      m1_seed_def m001_def)

lemma exec_one:
  "executeAll demo [m1_seed] ((fresh pair_walk)\<lparr>table := Some (current_table []), calls := 2\<rparr>) =
   (None, pair_final\<lparr>schema := [''INSERT 1;''], table := Some (current_table [newRow m1_seed 103]),
            calls := 7, issued := [''INSERT 1;''],
            logged := [LogExecuted ''1'' ''seed'' ''cross_module'']\<rparr>)"
  by (simp add: exec_eval demo_def fresh_def m1_seed_def pair_final_def)

lemma exec_pair:
  "executeAll demo [m1_seed, m001] ((fresh pair_walk)\<lparr>table := Some (current_table []), calls := 2\<rparr>) =
   (None, pair_final\<lparr>logged := butlast (logged pair_final)\<rparr>)"
  by (simp add: exec_eval demo_def fresh_def m1_seed_def m001_def pair_final_def)

lemma run_pair: "RunMigrations demo (fresh pair_walk) = (None, pair_final)"
proof -
  have l: "loadMigrationsFromFiles demo ((fresh pair_walk)\<lparr>table := Some (current_table []), calls := 2\<rparr>)
     = (Inr [m1_seed, m001], (fresh pair_walk)\<lparr>table := Some (current_table []), calls := 2\<rparr>)"
    by (rule loadMigrationsFromFiles_present) (simp_all add: fresh_def walk_pair)
  show ?thesis
    by (simp add: RunMigrations_def create_fresh l demo_sort sort_pair exec_pair logf_def
        pair_final_def del: executeAll.simps)
qed

lemma version_1 [simp]: "Version m1_seed = ''1''"
  by (simp add: m1_seed_def)

lemmas state_eval = order_final_def fail_final_def late_start_def abc_final_def twice_final_def
  down_fails_start_def out_of_order_start_def fresh_def current_table_def applied_def

text \<open>Claim C1 on the three files of the small installation: the first run applies them, the
  second changes nothing.\<close>

theorem apply_all_idempotent_witness:
  "\<not> conn_fails demo (calls order_final) \<and> Version m001 \<in> set (applied order_final) \<and>
   executeMigration demo m001 order_final =
     (None, logf (LogSkipping (Version m001) (Module m001)) (tick order_final)) \<and>
   RunMigrations demo (fresh order_walk) = (None, order_final) \<and>
   fst (RunMigrations demo order_final) = None \<and>
   table (snd (RunMigrations demo order_final)) = table order_final \<and>
   schema (snd (RunMigrations demo order_final)) = schema order_final \<and>
   issued (snd (RunMigrations demo order_final)) = issued order_final"
  using apply_all_idempotent [where w = demo and s = order_final and m = m001]
    apply_all_idempotent [where w = demo and s = "fresh order_walk" and s' = order_final]
    run_order
  by (cases "RunMigrations demo order_final") (simp add: demo_conn state_eval)

text \<open>Claim C2, as the code has it, on an empty ledger: the script of version 002 fails, and the ledger
  holds 001 and neither 002 nor 003; and the run that applies 001, 002 and 003.\<close>

theorem failed_migration_keeps_prefix_witness:
  "executeAll demo [m001, m002_bad, m003]
     ((fresh [])\<lparr>table := Some (current_table []), calls := 2\<rparr>) =
     (Some (Errorf ''failed to execute migration 002''
              (Errorf ''failed to execute migration SQL'' (SqlError ''FAIL 2;''))), fail_final) \<and>
   prefixApplied (map Version [m001, m002_bad, m003])
     (applied ((fresh [])\<lparr>table := Some (current_table []), calls := 2\<rparr>)) \<and>
   prefixApplied (map Version [m001, m002_bad, m003]) (applied fail_final) \<and>
   applied fail_final = [''001''] \<and>
   RunMigrations demo (fresh order_walk) = (None, order_final) \<and>
   fst (loadMigrationsFromFiles demo (fresh order_walk)) = Inr [m003, m001, m002] \<and>
   prefixApplied (map Version (sort_Slice demo versionLess [m003, m001, m002]))
     (applied (fresh order_walk)) \<and>
   prefixApplied (map Version (sort_Slice demo versionLess [m003, m001, m002]))
     (applied order_final)"
  using failed_migration_keeps_prefix [where w = demo and ms = "[m001, m002_bad, m003]"
      and s = "(fresh [])\<lparr>table := Some (current_table []), calls := 2\<rparr>"
      and e = "Errorf ''failed to execute migration 002''
              (Errorf ''failed to execute migration SQL'' (SqlError ''FAIL 2;''))"
      and s' = fail_final
      and r = "Some (Errorf ''failed to execute migration 002''
              (Errorf ''failed to execute migration SQL'' (SqlError ''FAIL 2;'')))"]
    failed_migration_keeps_prefix [where w = demo and s = "fresh order_walk" and s' = order_final
      and r = None and corpus = "[m003, m001, m002]"]
    exec_fail run_order load_order
  by (simp add: demo_sort sort_order state_eval prefixApplied_def del: executeAll.simps)

text \<open>Claim C2 as stated fails: version 002 is applied, version 001 comes to the corpus
  afterwards and its script fails. After the run the ledger holds 002, whose predecessor
  001 is not applied.\<close>

theorem unapplied_predecessor_counterexample:
  "fst (loadMigrationsFromFiles demo late_start) = Inr [m001_bad, m002] \<and>
   map Version (sort_Slice demo versionLess [m001_bad, m002]) = [''001'', ''002''] \<and>
   applied late_start = [''002''] \<and>
   RunMigrations demo late_start =
     (Some (Errorf ''failed to execute migration 001''
              (Errorf ''failed to execute migration SQL'' (SqlError ''FAIL 1;''))),
      late_start\<lparr>calls := 5, issued := [''FAIL 1;'']\<rparr>) \<and>
   applied (late_start\<lparr>calls := 5, issued := [''FAIL 1;'']\<rparr>) = [''002''] \<and>
   \<not> prefixApplied [''001'', ''002''] [''002'']"
  using load_late run_late
  by (simp add: demo_sort sort_late state_eval prefixApplied_def)

text \<open>Claim C3 on the versions 003, 001, 002, read in this order: they run as 001, 002,
  003.\<close>

theorem migrations_run_in_version_order_witness:
  "sortsBy (sort_Slice demo) versionLess \<and>
   RunMigrations demo (fresh order_walk) = (None, order_final) \<and>
   fst (loadMigrationsFromFiles demo (fresh order_walk)) = Inr [m003, m001, m002] \<and>
   map Version [m003, m001, m002] = [''003'', ''001'', ''002''] \<and>
   processed (logged order_final) = [''001'', ''002'', ''003'']"
  using migrations_run_in_version_order [where w = demo and s = "fresh order_walk" and r = None
      and s' = order_final and ms = "[m003, m001, m002]"]
    insertionSort_sortsBy run_order load_order
  by (simp add: demo_sort sort_order state_eval)

text \<open>Claim C4 on a ledger whose latest row is version 002, with a reverse script that
  fails.\<close>

theorem failed_down_keeps_ledger_witness:
  "table down_fails_start = Some (current_table [newRow m001 103, newRow m002 108]) \<and>
   latestRow [newRow m001 103, newRow m002 108] = Some (newRow m002 108) \<and>
   parseMigrationFile demo ''database/migrations/user_management/002_users.sql'' = Inr m002 \<and>
   run_sql demo (DownSQL m002) (schema down_fails_start) = None \<and>
   Rollback demo down_fails_start =
     (Some (Errorf ''failed to execute rollback SQL'' (SqlError ''FAIL 2;'')),
      down_fails_start\<lparr>calls := 3, issued := [''FAIL 2;'']\<rparr>) \<and>
   table (down_fails_start\<lparr>calls := 3, issued := [''FAIL 2;'']\<rparr>) = table down_fails_start \<and>
   schema (down_fails_start\<lparr>calls := 3, issued := [''FAIL 2;'']\<rparr>) = schema down_fails_start"
  using failed_down_keeps_ledger [where w = demo and s = down_fails_start
      and s' = "down_fails_start\<lparr>calls := 3, issued := [''FAIL 2;'']\<rparr>"
      and t = "current_table [newRow m001 103, newRow m002 108]"
      and r = "newRow m002 108" and d = "''users''" and mo = "''user_management''"
      and p = "''database/migrations/user_management/002_users.sql''" and m = m002]
    rollback_down_fails parse_002
  by (simp add: demo_def down_fails_start_def m002_def HasPrefix_def)

text \<open>Claim C5 on a ledger where version 001 was applied after version 002: the rollback
  removes 001.\<close>

theorem rollback_removes_latest_executed_witness:
  "Rollback demo out_of_order_start =
     (None, out_of_order_start\<lparr>schema := [''CREATE 2;'', ''CREATE 1;'', ''DROP 1;''],
              table := Some (current_table [newRow m002 105]),
              calls := 5, issued := [''DROP 1;''],
              logged := [LogRolledBack ''001'' ''schema'' ''sensor_data'']\<rparr>) \<and>
   table out_of_order_start = Some (current_table [newRow m002 105, newRow m001 109]) \<and>
   executed_at (newRow m002 105) < executed_at (newRow m001 109) \<and>
   fst (Atoi (version (newRow m001 109))) < fst (Atoi (version (newRow m002 105))) \<and>
   deleteVersion (current_table [newRow m002 105, newRow m001 109]) (version (newRow m001 109)) =
     current_table [newRow m002 105]"
  using rollback_removes_latest_executed [where w = demo and s = out_of_order_start
      and s' = "out_of_order_start\<lparr>schema := [''CREATE 2;'', ''CREATE 1;'', ''DROP 1;''],
              table := Some (current_table [newRow m002 105]),
              calls := 5, issued := [''DROP 1;''],
              logged := [LogRolledBack ''001'' ''schema'' ''sensor_data'']\<rparr>"
      and t = "current_table [newRow m002 105, newRow m001 109]"]
    rollback_out_of_order
  by (simp add: out_of_order_start_def current_table_def deleteVersion_def Atoi_def
      ParseUint_def Let_def)



text \<open>Claim C9, as the code has it, on two files with version 001, where the second is
  skipped, and on the files \<open>1_seed.sql\<close> and \<open>001_schema.sql\<close>, where both are executed and
  recorded.\<close>

theorem version_collision_is_not_detected_witness:
  "executeAll demo [m001_seed]
     ((fresh twice_walk)\<lparr>table := Some (current_table []), calls := 2\<rparr>) =
     (None, twice_final\<lparr>calls := 7, logged := [LogExecuted ''001'' ''seed'' ''cross_module'']\<rparr>) \<and>
   Version m001 = Version m001_seed \<and>
   executeAll demo ([m001_seed] @ [m001])
     ((fresh twice_walk)\<lparr>table := Some (current_table []), calls := 2\<rparr>) =
     (None, twice_final\<lparr>logged := [LogExecuted ''001'' ''seed'' ''cross_module'',
                                     LogSkipping ''001'' ''sensor_data'']\<rparr>) \<and>
   Version m1_seed = ''1'' \<and> Version m001 = ''001'' \<and>
   fst (Atoi (Version m001)) = fst (Atoi (Version m1_seed)) \<and>
   fst (executeAll demo ([m1_seed] @ [m001])
     ((fresh pair_walk)\<lparr>table := Some (current_table []), calls := 2\<rparr>)) = None \<and>
   applied (snd (executeAll demo ([m1_seed] @ [m001])
     ((fresh pair_walk)\<lparr>table := Some (current_table []), calls := 2\<rparr>))) = [''1'', ''001''] \<and>
   issued (snd (executeAll demo ([m1_seed] @ [m001])
     ((fresh pair_walk)\<lparr>table := Some (current_table []), calls := 2\<rparr>))) =
     [''INSERT 1;'', ''CREATE 1;''] \<and>
   RunMigrations demo (fresh pair_walk) = (None, pair_final) \<and>
   applied pair_final = [''1'', ''001'']"
  using version_collision_is_not_detected [where w = demo and ms = "[m001_seed]"
      and s = "(fresh twice_walk)\<lparr>table := Some (current_table []), calls := 2\<rparr>"
      and ?s1.0 = "twice_final\<lparr>calls := 7, logged := [LogExecuted ''001'' ''seed'' ''cross_module'']\<rparr>"
      and ?m1.0 = m001_seed and ?m2.0 = m001]
    version_collision_is_not_detected [where w = demo and ms = "[m1_seed]"
      and s = "(fresh pair_walk)\<lparr>table := Some (current_table []), calls := 2\<rparr>"
      and ?s1.0 = "pair_final\<lparr>schema := [''INSERT 1;''],
            table := Some (current_table [newRow m1_seed 103]),
            calls := 7, issued := [''INSERT 1;''],
            logged := [LogExecuted ''1'' ''seed'' ''cross_module'']\<rparr>"
      and ?m1.0 = m1_seed and ?m2.0 = m001]
    exec_seed exec_one exec_pair run_pair
  by (simp add: demo_def twice_final_def pair_final_def tick_def logf_def
      current_table_def applied_def HasPrefix_def Atoi_def ParseUint_def Let_def
      TrimSpace_def TrimLeftSpace_def TrimRightSpace_def spaceEncodings_def m001_def
      del: executeAll.simps)

text \<open>Claim C9 as stated fails: two modules each hold a file with version 001;
  \<open>RunMigrations\<close> returns no error, applies the first and skips the second.\<close>

theorem version_collision_counterexample:
  "fst (loadMigrationsFromFiles demo (fresh twice_walk)) = Inr [m001_seed, m001] \<and>
   Version m001_seed = Version m001 \<and> Module m001_seed \<noteq> Module m001 \<and>
   RunMigrations demo (fresh twice_walk) = (None, twice_final) \<and>
   applied twice_final = [''001''] \<and> issued twice_final = [''INSERT 1;''] \<and>
   logged twice_final = [LogExecuted ''001'' ''seed'' ''cross_module'',
                         LogSkipping ''001'' ''sensor_data'', LogAllExecuted]"
  using load_twice run_twice
  by (simp add: state_eval)

end
